theory Spec2Isabelle
  imports Complex_Main "HOL-Library.Word" "HOL-Library.Signed_Division"
begin

section \<open>Floating-point values\<close>

text \<open>
  The logits (element type T: half, float or double) and the doubles of the CDF are
  values of one type: a finite value is the real number it denotes, and the three
  kinds of non-finite value are constructors of their own. Every finite half or float
  is a finite double, so \<open>static_cast<double>\<close> is the identity here.
\<close>

datatype fp = Fin real | PInf | NInf | NaN

text \<open>\<open>Eigen::numext::isfinite\<close>.\<close>

fun isfinite :: "fp \<Rightarrow> bool" where
  "isfinite (Fin x) = True"
| "isfinite x = False"

text \<open>The comparison \<open>a < b\<close>: false whenever an operand is NaN.\<close>

fun fp_less :: "fp \<Rightarrow> fp \<Rightarrow> bool" where
  "fp_less (Fin a) (Fin b) = (a < b)"
| "fp_less NaN y = False"
| "fp_less x NaN = False"
| "fp_less x NInf = False"
| "fp_less NInf y = True"
| "fp_less PInf y = False"
| "fp_less x PInf = True"

text \<open>\<open>std::max(a, b)\<close> is \<open>(a < b) ? b : a\<close>.\<close>

definition std_max :: "fp \<Rightarrow> fp \<Rightarrow> fp" where
  "std_max a b = (if fp_less a b then b else a)"

section \<open>What the kernel takes from the platform\<close>

text \<open>
  The rounded double operations, \<open>std::numeric_limits<T>::lowest()\<close>, the Philox
  generator, the conversion of two 32-bit outputs to a double and the work sharder are
  not part of the kernel's source file. The model takes them as the fields of one
  record, so that every statement below says which properties of them it needs.

  \<^item> \<open>lowest\<close>: \<open>std::numeric_limits<T>::lowest()\<close>, a finite value of T;
  \<^item> \<open>fsub\<close>, \<open>fexp\<close>, \<open>fadd\<close>, \<open>fmul\<close>, \<open>fdiv\<close>, \<open>flog\<close>: double subtraction,
    \<open>exp\<close>, addition, multiplication, division and \<open>std::log\<close>, each with whatever
    rounding the platform has;
  \<^item> \<open>philox_out k i\<close>: the \<open>i\<close>-th 32-bit output of the Philox stream with key
    \<open>k\<close>; output \<open>i\<close> belongs to the 128-bit block with counter \<open>i div 4\<close>;
  \<^item> \<open>uint64_to_double\<close>: \<open>Uint64ToDouble\<close>, the uniform double made of two outputs;
  \<^item> \<open>shard_ranges total cost\<close>: the ranges \<open>[start, limit)\<close> on which \<open>Shard\<close> calls
    the work function;
  \<^item> \<open>generate_key\<close>: \<open>GenerateKey\<close>, from the values of the seed tensor to the key
    and the counter of the stateless generator (the kernel is registered for seeds of
    element type \<open>int32\<close> and \<open>int64\<close> only, for which \<open>GenerateKey\<close> returns OK).
\<close>

record machine =
  lowest :: real
  fsub :: "fp \<Rightarrow> fp \<Rightarrow> fp"
  fexp :: "fp \<Rightarrow> fp"
  fadd :: "fp \<Rightarrow> fp \<Rightarrow> fp"
  fmul :: "fp \<Rightarrow> fp \<Rightarrow> fp"
  fdiv :: "fp \<Rightarrow> fp \<Rightarrow> fp"
  flog :: "fp \<Rightarrow> fp"
  philox_out :: "nat \<Rightarrow> nat \<Rightarrow> 32 word"
  uint64_to_double :: "32 word \<Rightarrow> 32 word \<Rightarrow> fp"
  shard_ranges :: "nat \<Rightarrow> int \<Rightarrow> (nat \<times> nat) list"
  generate_key :: "int list \<Rightarrow> nat \<times> nat"

section \<open>Errors\<close>

text \<open>
  The errors of the op. Each \<open>InvalidArgument\<close> carries the check that raised it, in
  place of the message text.
\<close>

datatype check =
    LogitsNotMatrix | NumSamplesNotScalar | NumSamplesNegative
  | TooLargeForInt | NumClassesNotPositive | SeedNotShape2

datatype error = InvalidArgument check | ResourceExhausted

section \<open>The random generator\<close>

text \<open>
  Modelled from the spec: the counter-based generator (\<open>PhiloxRandom\<close>) is a key and
  a counter of 128-bit blocks; a block is a pure function of (key, counter), and
  \<open>Skip n\<close> advances the counter by \<open>n\<close> blocks. The counter's wrap-around at
  \<open>2 ^ 128\<close> blocks is left out.
\<close>

record philox =
  key :: nat
  counter :: nat

definition Skip :: "nat \<Rightarrow> philox \<Rightarrow> philox" where
  "Skip n g = g\<lparr>counter := counter g + n\<rparr>"

text \<open>
  Modelled from the spec: \<open>SimplePhilox\<close> hands out the 32-bit outputs of the blocks
  one by one, starting at the generator's counter. Its state is the key and the index
  of the next output in the key's stream (four outputs to a block).
\<close>

record simple_philox =
  sp_key :: nat
  sp_next :: nat

definition SimplePhilox :: "philox \<Rightarrow> simple_philox" where
  "SimplePhilox g = \<lparr>sp_key = key g, sp_next = 4 * counter g\<rparr>"

definition single :: "machine \<Rightarrow> simple_philox \<Rightarrow> 32 word \<times> simple_philox" where
  "single env sp = (philox_out env (sp_key sp) (sp_next sp), sp\<lparr>sp_next := sp_next sp + 1\<rparr>)"

text \<open>
  Modelled from the spec: \<open>RandDouble\<close> takes two 32-bit outputs (the kernel's
  \<open>DoCompute\<close> reserves them so: "CPU generates doubles = 2 samples per number")
  and converts them to a uniform double.
\<close>

definition RandDouble :: "machine \<Rightarrow> simple_philox \<Rightarrow> fp \<times> simple_philox" where
  "RandDouble env sp =
     (let (x0, sp1) = single env sp;
          (x1, sp2) = single env sp1
      in (uint64_to_double env x0 x1, sp2))"

section \<open>The row sampler of \<open>MultinomialFunctor<CPUDevice>\<close>\<close>

text \<open>
  The along-class maximum: \<open>max\<close> starts at \<open>lowest()\<close> and takes \<open>std::max\<close> with
  every finite logit of the row.
\<close>

fun max_loop :: "fp \<Rightarrow> fp list \<Rightarrow> fp" where
  "max_loop m [] = m"
| "max_loop m (x # xs) = max_loop (if isfinite x then std_max m x else m) xs"

definition row_max :: "machine \<Rightarrow> fp list \<Rightarrow> fp" where
  "row_max env logits_row = max_loop (Fin (lowest env)) logits_row"

text \<open>
  \<open>cdf = (logits.chip<0>(b).cast<double>() - max_logit).exp()\<close>, elementwise.
\<close>

definition exp_shifted :: "machine \<Rightarrow> fp \<Rightarrow> fp list \<Rightarrow> fp list" where
  "exp_shifted env max_logit logits_row = map (\<lambda>x. fexp env (fsub env x max_logit)) logits_row"

text \<open>
  The accumulation loop over \<open>j\<close>: \<open>running_total += cdf(j)\<close> when \<open>logits_row[j]\<close> is
  finite, then \<open>cdf(j) = running_total\<close>. It walks the logits and the exponentials in
  step and returns the new \<open>cdf\<close> with the final \<open>running_total\<close>.
\<close>

fun accumulate :: "machine \<Rightarrow> fp \<Rightarrow> (fp \<times> fp) list \<Rightarrow> fp list \<times> fp" where
  "accumulate env running_total [] = ([], running_total)"
| "accumulate env running_total ((x, c) # rest) =
     (let running_total' = (if isfinite x then fadd env running_total c else running_total);
          (cdf, total) = accumulate env running_total' rest
      in (running_total' # cdf, total))"

definition build_cdf :: "machine \<Rightarrow> fp list \<Rightarrow> fp list \<times> fp" where
  "build_cdf env logits_row =
     (let max_logit = row_max env logits_row;
          cdf = exp_shifted env max_logit logits_row
      in accumulate env (Fin 0) (zip logits_row cdf))"

text \<open>
  \<open>std::upper_bound(cdf_begin, cdf_end, to_find)\<close>, as the standard library's binary
  search: \<open>first\<close> and \<open>len\<close> delimit the part still searched, and the element in
  the middle is compared with \<open>to_find < *middle\<close>. The result is the distance from
  \<open>cdf_begin\<close>.
\<close>

function upper_bound_loop :: "fp list \<Rightarrow> fp \<Rightarrow> nat \<Rightarrow> nat \<Rightarrow> nat" where
  "upper_bound_loop cdf to_find first len =
     (if 0 < len then
        (let half = len div 2;
             middle = first + half
         in if fp_less to_find (cdf ! middle)
            then upper_bound_loop cdf to_find first half
            else upper_bound_loop cdf to_find (middle + 1) (len - half - 1))
      else first)"
  by pat_completeness auto
termination
  by (relation "measure (\<lambda>(cdf, to_find, first, len). len)") auto

declare upper_bound_loop.simps [simp del]

definition upper_bound :: "fp list \<Rightarrow> fp \<Rightarrow> nat" where
  "upper_bound cdf to_find = upper_bound_loop cdf to_find 0 (length cdf)"

text \<open>
  The sample loop: \<open>num_samples\<close> times, \<open>to_find = RandDouble() * running_total\<close> and
  the sample is the position \<open>upper_bound\<close> finds.
\<close>

fun sample_loop ::
  "machine \<Rightarrow> fp list \<Rightarrow> fp \<Rightarrow> nat \<Rightarrow> simple_philox \<Rightarrow> nat list \<times> simple_philox" where
  "sample_loop env cdf running_total 0 sp = ([], sp)"
| "sample_loop env cdf running_total (Suc n) sp =
     (let (u, sp') = RandDouble env sp;
          to_find = fmul env u running_total;
          found = upper_bound cdf to_find;
          (rest, sp'') = sample_loop env cdf running_total n sp'
      in (found # rest, sp''))"

text \<open>One iteration of the loop over the rows \<open>b\<close>: the samples of the row.\<close>

definition sample_row ::
  "machine \<Rightarrow> fp list \<Rightarrow> nat \<Rightarrow> simple_philox \<Rightarrow> nat list \<times> simple_philox" where
  "sample_row env logits_row num_samples sp =
     (let (cdf, running_total) = build_cdf env logits_row
      in sample_loop env cdf running_total num_samples sp)"

text \<open>
  The loop over the rows of one shard. The output matrix is the list of its rows;
  writing \<open>output(b, j)\<close> for every \<open>j < num_samples\<close> replaces row \<open>b\<close>. (A row
  index outside the matrix does not occur: the sharder hands out ranges within
  \<open>[0, batch_size)\<close>.)
\<close>

fun rows_loop ::
  "machine \<Rightarrow> fp list list \<Rightarrow> nat \<Rightarrow> nat list \<Rightarrow> simple_philox \<Rightarrow> nat list list \<Rightarrow> nat list list" where
  "rows_loop env logits num_samples [] sp output = output"
| "rows_loop env logits num_samples (b # bs) sp output =
     (let (samples, sp') = sample_row env (logits ! b) num_samples sp
      in rows_loop env logits num_samples bs sp' (output[b := samples]))"

text \<open>
  The part of \<open>DoWork(start_row, limit_row)\<close> around the scratch allocation: a private
  copy of the generator, skipped by \<open>start_row * (num_samples + 3) / 4\<close> blocks, then
  the rows of the shard in order. The row indices and the sample count are natural
  numbers here: for the sizes \<open>DoCompute\<close> admits no step of the \<open>int64\<close> arithmetic
  wraps, as long as \<open>num_samples + 3\<close> fits an \<open>int\<close>.
\<close>

definition skip_blocks :: "nat \<Rightarrow> nat \<Rightarrow> nat" where
  "skip_blocks start_row num_samples = start_row * (num_samples + 3) div 4"

definition DoWork_rows ::
  "machine \<Rightarrow> philox \<Rightarrow> nat \<Rightarrow> fp list list \<Rightarrow> nat list list \<Rightarrow> nat \<times> nat \<Rightarrow> nat list list" where
  "DoWork_rows env gen num_samples logits output shard =
     (let start_row = fst shard;
          limit_row = snd shard;
          gen_copy = Skip (skip_blocks start_row num_samples) gen;
          simple_philox = SimplePhilox gen_copy
      in rows_loop env logits num_samples [start_row..<limit_row] simple_philox output)"

text \<open>
  \<open>DoWork(start_row, limit_row)\<close>. It works on the status of the context and the output
  matrix. When the scratch tensor for the CDF cannot be allocated
  (\<open>OP_REQUIRES_OK(ctx, ctx->allocate_temp(...))\<close>) the lambda records the failure and
  returns before it writes any row; a status that is an error already stays.
\<close>

definition DoWork ::
  "machine \<Rightarrow> bool \<Rightarrow> philox \<Rightarrow> nat \<Rightarrow> fp list list \<Rightarrow> error option \<times> nat list list
     \<Rightarrow> nat \<times> nat \<Rightarrow> error option \<times> nat list list" where
  "DoWork env temp_memory gen num_samples logits state shard =
     (if \<not> temp_memory then
        (case fst state of None \<Rightarrow> Some ResourceExhausted | Some e \<Rightarrow> Some e, snd state)
      else (fst state, DoWork_rows env gen num_samples logits (snd state) shard))"

text \<open>The work function on a given list of shards, in any order of execution the
  same: the shards write disjoint rows and share no generator state.\<close>

definition run_shards ::
  "machine \<Rightarrow> bool \<Rightarrow> philox \<Rightarrow> nat \<Rightarrow> fp list list \<Rightarrow> (nat \<times> nat) list
     \<Rightarrow> error option \<times> nat list list \<Rightarrow> error option \<times> nat list list" where
  "run_shards env temp_memory gen num_samples logits shards state =
     foldl (DoWork env temp_memory gen num_samples logits) state shards"

text \<open>The rows that the shards write when every scratch allocation succeeds.\<close>

definition rows_of_shards ::
  "machine \<Rightarrow> philox \<Rightarrow> nat \<Rightarrow> fp list list \<Rightarrow> (nat \<times> nat) list \<Rightarrow> nat list list \<Rightarrow> nat list list" where
  "rows_of_shards env gen num_samples logits shards output =
     foldl (DoWork_rows env gen num_samples logits) output shards"

text \<open>
  The conversion of a double to \<open>int64\<close>: truncation toward zero. (A value that is not
  finite or does not fit has no defined conversion in C++; it is 0 here. The cost
  estimate below is finite and fits for the sizes \<open>DoCompute\<close> admits.)
\<close>

fun double_to_int64 :: "fp \<Rightarrow> int" where
  "double_to_int64 (Fin r) =
     (if - (2 ^ 63) \<le> r \<and> r < 2 ^ 63 then (if 0 \<le> r then \<lfloor>r\<rfloor> else \<lceil>r\<rceil>) else 0)"
| "double_to_int64 x = 0"

text \<open>
  The rough cost estimate handed to the sharder,
  \<open>50 * (num_samples * std::log(num_classes) / std::log(2) + num_classes)\<close>: the
  integers are converted to double (exactly, below \<open>2 ^ 53\<close>), the operations are the
  platform's double operations, and the result is converted to \<open>int64\<close>. Then the
  functor: \<open>Shard\<close> with \<open>DoWork\<close>. (The CPU functor ignores its three scratch
  arguments.)
\<close>

definition work_cost :: "machine \<Rightarrow> nat \<Rightarrow> nat \<Rightarrow> int" where
  "work_cost env num_samples num_classes =
     double_to_int64
       (fmul env (Fin 50)
          (fadd env
             (fdiv env (fmul env (Fin (real num_samples)) (flog env (Fin (real num_classes))))
                (flog env (Fin 2)))
             (Fin (real num_classes))))"

definition MultinomialFunctor ::
  "machine \<Rightarrow> bool \<Rightarrow> fp list list \<Rightarrow> nat \<Rightarrow> nat \<Rightarrow> nat \<Rightarrow> philox
     \<Rightarrow> error option \<times> nat list list \<Rightarrow> error option \<times> nat list list" where
  "MultinomialFunctor env temp_memory logits batch_size num_classes num_samples gen state =
     run_shards env temp_memory gen num_samples logits
       (shard_ranges env batch_size (work_cost env num_samples num_classes)) state"

section \<open>The op kernels\<close>

text \<open>
  A tensor is its shape (the dimension sizes, which are never negative; \<open>dim_size\<close>
  returns them as \<open>int64\<close>) and its elements in row-major order. \<open>num_samples\<close> is
  an \<open>int32\<close> tensor, read as a signed 32-bit word.
\<close>

record 'a tensor =
  shape :: "nat list"
  flat :: "'a list"

definition IsMatrix :: "nat list \<Rightarrow> bool" where
  "IsMatrix shp = (length shp = 2)"

definition IsScalar :: "nat list \<Rightarrow> bool" where
  "IsScalar shp = (length shp = 0)"

definition dim_size :: "'a tensor \<Rightarrow> nat \<Rightarrow> int" where
  "dim_size t i = int (shape t ! i)"

text \<open>\<open>static_cast<int>\<close> of an \<open>int64\<close>: the low 32 bits, read as signed.\<close>

definition static_cast_int :: "int \<Rightarrow> int" where
  "static_cast_int d = sint (word_of_int d :: 32 word)"

text \<open>\<open>logits_t.matrix<T>()\<close>: row \<open>b\<close> is elements \<open>b * C\<close> to \<open>b * C + C - 1\<close>.\<close>

definition matrix :: "'a tensor \<Rightarrow> 'a list list" where
  "matrix t =
     (let num_rows = nat (dim_size t 0); num_cols = nat (dim_size t 1)
      in map (\<lambda>b. take num_cols (drop (b * num_cols) (flat t))) [0..<num_rows])"

text \<open>
  The effects of a call on the runtime, in order: the output allocation with its
  shape, the reservation of generator outputs, the call of the functor with
  \<open>batch_size\<close>, \<open>num_classes\<close> and \<open>num_samples\<close>.
\<close>

datatype event =
    AllocateOutput "int list"
  | ReserveOutputs int
  | CallFunctor nat nat nat

text \<open>
  The \<open>OpKernelContext\<close> of one call: its status (\<open>None\<close> is OK), output 0 once it is
  allocated (shape and rows), the effects so far, and whether the runtime has memory
  for the output and for the scratch tensors of the workers.
\<close>

record op_context =
  status :: "error option"
  output0 :: "(int list \<times> nat list list) option"
  effects :: "event list"
  has_memory :: bool
  has_temp_memory :: bool

definition fail :: "op_context \<Rightarrow> error \<Rightarrow> op_context" where
  "fail ctx e = ctx\<lparr>status := Some e\<rparr>"

text \<open>
  \<open>ctx->allocate_output(0, TensorShape({batch_size, num_samples}), &samples_t)\<close>. The
  cells of the fresh buffer are written before anything reads them; they start at 0
  here.
\<close>

definition allocate_output ::
  "op_context \<Rightarrow> int \<Rightarrow> int \<Rightarrow> (op_context \<times> nat list list) option" where
  "allocate_output ctx batch_size num_samples =
     (if has_memory ctx then
        (let samples_t = replicate (nat batch_size) (replicate (nat num_samples) 0)
         in Some (ctx\<lparr>output0 := Some ([batch_size, num_samples], samples_t),
                       effects := effects ctx @ [AllocateOutput [batch_size, num_samples]]\<rparr>,
                  samples_t))
      else None)"

text \<open>
  Modelled from the spec: \<open>GuardedPhiloxRandom::ReserveRandomOutputs\<close> returns a copy of
  the guarded generator and advances the guarded one past the reserved outputs
  (\<open>output_count * multiplier\<close> blocks).
\<close>

definition ReserveRandomOutputs :: "int \<Rightarrow> int \<Rightarrow> philox \<Rightarrow> philox \<times> philox" where
  "ReserveRandomOutputs output_count multiplier generator =
     (generator, Skip (nat (output_count * multiplier)) generator)"

text \<open>\<open>int\<close> arithmetic, wrapping at 32 bits.\<close>

definition int_add :: "int \<Rightarrow> int \<Rightarrow> int" where
  "int_add a b = static_cast_int (a + b)"

definition int_mul :: "int \<Rightarrow> int \<Rightarrow> int" where
  "int_mul a b = static_cast_int (a * b)"

text \<open>
  \<open>MultinomialOp<CPUDevice, T, OutputType>::DoCompute\<close>. Every \<open>OP_REQUIRES\<close> is a
  branch that sets the status and returns; the generator is returned as the call
  leaves it. \<open>num_samples_t.scalar<int>()()\<close> reads the one element of a tensor of
  scalar shape. On the CPU no scratch tensor is allocated here and
  \<open>num_samples_ceil_4\<close> is doubled.
\<close>

definition DoCompute ::
  "machine \<Rightarrow> op_context \<Rightarrow> fp tensor \<Rightarrow> 32 word tensor \<Rightarrow> philox \<Rightarrow> op_context \<times> philox" where
  "DoCompute env ctx logits_t num_samples_t generator =
     (if \<not> IsMatrix (shape logits_t) then
        (fail ctx (InvalidArgument LogitsNotMatrix), generator)
      else if \<not> IsScalar (shape num_samples_t) then
        (fail ctx (InvalidArgument NumSamplesNotScalar), generator)
      else
        let num_samples = sint (hd (flat num_samples_t)) in
        if \<not> 0 \<le> num_samples then
          (fail ctx (InvalidArgument NumSamplesNegative), generator)
        else if static_cast_int (dim_size logits_t 0) \<noteq> dim_size logits_t 0 then
          (fail ctx (InvalidArgument TooLargeForInt), generator)
        else if static_cast_int (dim_size logits_t 1) \<noteq> dim_size logits_t 1 then
          (fail ctx (InvalidArgument TooLargeForInt), generator)
        else
          let batch_size = static_cast_int (dim_size logits_t 0);
              num_classes = static_cast_int (dim_size logits_t 1) in
          if \<not> 0 < num_classes then
            (fail ctx (InvalidArgument NumClassesNotPositive), generator)
          else
            (case allocate_output ctx batch_size num_samples of
               None \<Rightarrow> (fail ctx ResourceExhausted, generator)
             | Some (ctx1, samples_t) \<Rightarrow>
                 if 0 < batch_size * num_samples then
                   let num_samples_ceil_4 =
                         int_mul (int_mul (int_add num_samples 3 sdiv 4) 4) 2;
                       reserved = int_mul batch_size num_samples_ceil_4;
                       (rng, generator') = ReserveRandomOutputs reserved 256 generator;
                       (st, samples) =
                         MultinomialFunctor env (has_temp_memory ctx1) (matrix logits_t)
                           (nat batch_size) (nat num_classes) (nat num_samples) rng
                           (status ctx1, samples_t)
                   in (ctx1\<lparr>status := st,
                            output0 := Some ([batch_size, num_samples], samples),
                            effects := effects ctx1 @
                              [ReserveOutputs reserved,
                               CallFunctor (nat batch_size) (nat num_classes) (nat num_samples)]\<rparr>,
                       generator')
                 else (ctx1, generator)))"

text \<open>
  The two kernels. Both classes have a member generator (\<open>generator_\<close> in the
  source), the state that outlives a call; the stateless kernel builds a local
  generator from the seed instead.
\<close>

record op_kernel =
  member_generator :: philox

definition StatefulCompute ::
  "machine \<Rightarrow> op_kernel \<Rightarrow> op_context \<Rightarrow> fp tensor \<Rightarrow> 32 word tensor \<Rightarrow> op_context \<times> op_kernel" where
  "StatefulCompute env op ctx logits_t num_samples_t =
     (let (ctx', generator') = DoCompute env ctx logits_t num_samples_t (member_generator op)
      in (ctx', op\<lparr>member_generator := generator'\<rparr>))"

definition Init :: "nat \<Rightarrow> nat \<Rightarrow> philox" where
  "Init cnt k = \<lparr>key = k, counter = cnt\<rparr>"

definition StatelessCompute ::
  "machine \<Rightarrow> op_kernel \<Rightarrow> op_context \<Rightarrow> fp tensor \<Rightarrow> 32 word tensor \<Rightarrow> int tensor
     \<Rightarrow> op_context \<times> op_kernel" where
  "StatelessCompute env op ctx logits_t num_samples_t seed_t =
     (if \<not> (length (shape seed_t) = 1 \<and> dim_size seed_t 0 = 2) then
        (fail ctx (InvalidArgument SeedNotShape2), op)
      else
        let (k, cnt) = generate_key env (flat seed_t);
            generator = Init cnt k;
            (ctx', generator') = DoCompute env ctx logits_t num_samples_t generator
        in (ctx', op))"

section \<open>Notions the statements use\<close>

text \<open>The finite logits of a row, as reals, in order.\<close>

fun finite_values :: "fp list \<Rightarrow> real list" where
  "finite_values [] = []"
| "finite_values (Fin r # xs) = r # finite_values xs"
| "finite_values (x # xs) = finite_values xs"

text \<open>The sum of doubles as the kernel forms it: from 0, left to right.\<close>

definition fsum :: "machine \<Rightarrow> fp list \<Rightarrow> fp" where
  "fsum env xs = foldl (fadd env) (Fin 0) xs"

text \<open>The first index whose CDF entry exceeds \<open>u\<close>, by a scan from the left
  (the length of the CDF when no entry does).\<close>

definition first_exceeding :: "fp list \<Rightarrow> fp \<Rightarrow> nat" where
  "first_exceeding cdf u = length (takeWhile (\<lambda>c. \<not> fp_less u c) cdf)"

text \<open>The \<open>i\<close>-th double that \<open>RandDouble\<close> returns from the state \<open>sp\<close> on, and the
  state after \<open>n\<close> 32-bit outputs.\<close>

definition draw :: "machine \<Rightarrow> simple_philox \<Rightarrow> nat \<Rightarrow> fp" where
  "draw env sp i =
     uint64_to_double env (philox_out env (sp_key sp) (sp_next sp + 2 * i))
       (philox_out env (sp_key sp) (sp_next sp + 2 * i + 1))"

definition advance :: "nat \<Rightarrow> simple_philox \<Rightarrow> simple_philox" where
  "advance n sp = sp\<lparr>sp_next := sp_next sp + n\<rparr>"

text \<open>
  The generator state at which \<open>DoWork_rows\<close> reaches row \<open>b\<close> of a shard that starts at
  \<open>start_row\<close>: the skipped blocks, then \<open>num_samples\<close> doubles for every row before
  \<open>b\<close> in the shard.
\<close>

definition row_stream :: "philox \<Rightarrow> nat \<Rightarrow> nat \<Rightarrow> nat \<Rightarrow> simple_philox" where
  "row_stream gen num_samples start_row b =
     advance (2 * num_samples * (b - start_row))
       (SimplePhilox (Skip (skip_blocks start_row num_samples) gen))"

text \<open>The start row of the last shard of the list whose range holds row \<open>b\<close>.\<close>

fun shard_start :: "nat option \<Rightarrow> (nat \<times> nat) list \<Rightarrow> nat \<Rightarrow> nat option" where
  "shard_start found [] b = found"
| "shard_start found ((s, l) # shards) b =
     shard_start (if s \<le> b \<and> b < l then Some s else found) shards b"

text \<open>
  The position at which row \<open>b\<close> starts to draw under a list of shards, counted in
  32-bit outputs from the generator's counter on: the blocks its shard skips, then two
  outputs for every sample of the rows before it in the shard (\<open>None\<close> when no shard
  holds the row).
\<close>

definition row_offset :: "nat \<Rightarrow> (nat \<times> nat) list \<Rightarrow> nat \<Rightarrow> nat option" where
  "row_offset num_samples shards b =
     map_option (\<lambda>s. 4 * skip_blocks s num_samples + 2 * num_samples * (b - s))
       (shard_start None shards b)"

text \<open>The number of 128-bit blocks from which the rows of a shard take their
  \<open>num_samples\<close> doubles each (two 32-bit outputs to a double, four to a block).\<close>

definition blocks_consumed :: "nat \<Rightarrow> nat \<times> nat \<Rightarrow> nat" where
  "blocks_consumed num_samples shard =
     (2 * num_samples * (snd shard - fst shard) + 3) div 4"

text \<open>A context at the start of a call, and the rows of output 0 of a call of
  \<open>DoCompute\<close> that ends with status OK.\<close>

definition new_context :: "bool \<Rightarrow> bool \<Rightarrow> op_context" where
  "new_context mem temp =
     \<lparr>status = None, output0 = None, effects = [], has_memory = mem, has_temp_memory = temp\<rparr>"

definition op_output ::
  "machine \<Rightarrow> fp tensor \<Rightarrow> 32 word tensor \<Rightarrow> philox \<Rightarrow> nat list list option" where
  "op_output env logits_t num_samples_t generator =
     (let (ctx', generator') = DoCompute env (new_context True True) logits_t num_samples_t generator
      in case status ctx' of
           None \<Rightarrow> map_option snd (output0 ctx')
         | Some e \<Rightarrow> None)"

definition is_invalid_argument :: "error option \<Rightarrow> bool" where
  "is_invalid_argument st = (case st of Some (InvalidArgument c) \<Rightarrow> True | _ \<Rightarrow> False)"

text \<open>The sharder calls the work function on a range that holds row \<open>b\<close>, for every
  row of the batch.\<close>

definition sharder_covers :: "machine \<Rightarrow> bool" where
  "sharder_covers env =
     (\<forall>n cost b. b < n \<longrightarrow> (\<exists>s l. (s, l) \<in> set (shard_ranges env n cost) \<and> s \<le> b \<and> b < l))"

text \<open>The exponential of a logit shifted by the row's maximum, and the kernel's sum of
  these over the finite logits among the first \<open>n\<close> of the row.\<close>

definition shifted :: "machine \<Rightarrow> fp list \<Rightarrow> fp \<Rightarrow> fp" where
  "shifted env row x = fexp env (fsub env x (row_max env row))"

definition prefix_sum :: "machine \<Rightarrow> fp list \<Rightarrow> nat \<Rightarrow> fp" where
  "prefix_sum env row n = fsum env (map (shifted env row) (filter isfinite (take n row)))"

text \<open>The inputs pass every check of \<open>DoCompute\<close>.\<close>

definition valid_inputs :: "fp tensor \<Rightarrow> 32 word tensor \<Rightarrow> bool" where
  "valid_inputs logits_t num_samples_t =
     (IsMatrix (shape logits_t) \<and> IsScalar (shape num_samples_t) \<and>
      0 \<le> sint (hd (flat num_samples_t)) \<and>
      shape logits_t ! 0 < 2 ^ 31 \<and> shape logits_t ! 1 < 2 ^ 31 \<and> 0 < shape logits_t ! 1)"

text \<open>
  The validation failures of \<open>DoCompute\<close> as the specification lists them: logits not
  rank 2, \<open>num_samples\<close> not a scalar, \<open>num_samples\<close> negative, class count 0.
\<close>

definition listed_invalid :: "fp tensor \<Rightarrow> 32 word tensor \<Rightarrow> bool" where
  "listed_invalid logits_t num_samples_t =
     (\<not> IsMatrix (shape logits_t) \<or> \<not> IsScalar (shape num_samples_t) \<or>
      sint (hd (flat num_samples_t)) < 0 \<or> shape logits_t ! 1 = 0)"

definition seed_is_shape_2 :: "int tensor \<Rightarrow> bool" where
  "seed_is_shape_2 seed_t = (length (shape seed_t) = 1 \<and> shape seed_t ! 0 = 2)"

section \<open>Properties of the platform that the theorems assume\<close>

text \<open>
  The double arithmetic is a parameter, so every theorem that depends on a property of
  it names the property. Each holds for IEEE doubles in round-to-nearest on the values
  the kernel computes with:
  \<^item> a logit minus itself is 0 and \<open>exp 0\<close> is 1;
  \<^item> \<open>exp\<close> of a difference that is not positive is a finite value in \<open>[0, 1]\<close>
    (0 when it underflows);
  \<^item> adding a value in \<open>[0, 1]\<close> to a running total that is not negative gives a finite
    value below neither operand;
  \<^item> a uniform double times a total of at least 1 is in \<open>[0, total)\<close>;
  \<^item> a uniform double times 0 is 0.
\<close>

definition exp_of_zero_shift :: "machine \<Rightarrow> bool" where
  "exp_of_zero_shift env = (\<forall>x. fexp env (fsub env (Fin x) (Fin x)) = Fin 1)"

definition exp_in_unit :: "machine \<Rightarrow> bool" where
  "exp_in_unit env =
     (\<forall>x m. x \<le> m \<longrightarrow> (\<exists>e. fexp env (fsub env (Fin x) (Fin m)) = Fin e \<and> 0 \<le> e \<and> e \<le> 1))"

definition add_monotone :: "machine \<Rightarrow> bool" where
  "add_monotone env =
     (\<forall>a e. 0 \<le> a \<and> 0 \<le> e \<and> e \<le> 1 \<longrightarrow>
        (\<exists>s. fadd env (Fin a) (Fin e) = Fin s \<and> a \<le> s \<and> e \<le> s))"

definition draw_below_total :: "machine \<Rightarrow> bool" where
  "draw_below_total env =
     (\<forall>x0 x1 t. 1 \<le> t \<longrightarrow>
        (\<exists>v. fmul env (uint64_to_double env x0 x1) (Fin t) = Fin v \<and> 0 \<le> v \<and> v < t))"

definition draw_times_zero :: "machine \<Rightarrow> bool" where
  "draw_times_zero env =
     (\<forall>x0 x1. fmul env (uint64_to_double env x0 x1) (Fin 0) = Fin 0)"

definition ieee_like :: "machine \<Rightarrow> bool" where
  "ieee_like env =
     (exp_of_zero_shift env \<and> exp_in_unit env \<and> add_monotone env \<and> draw_below_total env)"

text \<open>The finite logits of a row of element type T are not below \<open>lowest()\<close>.\<close>

definition row_of_T :: "machine \<Rightarrow> fp list \<Rightarrow> bool" where
  "row_of_T env logits_row = (\<forall>r. Fin r \<in> set logits_row \<longrightarrow> lowest env \<le> r)"

definition has_finite :: "fp list \<Rightarrow> bool" where
  "has_finite logits_row = (\<exists>x \<in> set logits_row. isfinite x)"

section \<open>A platform to run the kernel on\<close>

text \<open>
  Exact arithmetic on the extended values with the IEEE rules for the non-finite
  ones, \<open>lowest()\<close> of float, a generator whose blocks alternate between all zeros
  and all ones, the 52-bit mantissa conversion, and a sharder that runs everything as
  one shard. It is used to run the model on concrete inputs. A second sharder, for a
  runtime with a worker for every row, makes every row a shard of its own.
\<close>

fun exact_sub :: "fp \<Rightarrow> fp \<Rightarrow> fp" where
  "exact_sub (Fin a) (Fin b) = Fin (a - b)"
| "exact_sub NaN y = NaN"
| "exact_sub x NaN = NaN"
| "exact_sub PInf PInf = NaN"
| "exact_sub NInf NInf = NaN"
| "exact_sub PInf y = PInf"
| "exact_sub NInf y = NInf"
| "exact_sub x PInf = NInf"
| "exact_sub x NInf = PInf"

fun exact_exp :: "fp \<Rightarrow> fp" where
  "exact_exp (Fin a) = Fin (exp a)"
| "exact_exp PInf = PInf"
| "exact_exp NInf = Fin 0"
| "exact_exp NaN = NaN"

fun exact_add :: "fp \<Rightarrow> fp \<Rightarrow> fp" where
  "exact_add (Fin a) (Fin b) = Fin (a + b)"
| "exact_add NaN y = NaN"
| "exact_add x NaN = NaN"
| "exact_add PInf NInf = NaN"
| "exact_add NInf PInf = NaN"
| "exact_add PInf y = PInf"
| "exact_add NInf y = NInf"
| "exact_add x PInf = PInf"
| "exact_add x NInf = NInf"

fun fp_sign :: "fp \<Rightarrow> int" where
  "fp_sign (Fin a) = (if a < 0 then - 1 else if a = 0 then 0 else 1)"
| "fp_sign PInf = 1"
| "fp_sign NInf = - 1"
| "fp_sign NaN = 0"

fun exact_mul :: "fp \<Rightarrow> fp \<Rightarrow> fp" where
  "exact_mul (Fin a) (Fin b) = Fin (a * b)"
| "exact_mul NaN y = NaN"
| "exact_mul x NaN = NaN"
| "exact_mul x y =
     (if fp_sign x * fp_sign y = 0 then NaN
      else if 0 < fp_sign x * fp_sign y then PInf else NInf)"

fun exact_div :: "fp \<Rightarrow> fp \<Rightarrow> fp" where
  "exact_div (Fin a) (Fin b) =
     (if b \<noteq> 0 then Fin (a / b)
      else if a = 0 then NaN else if 0 < a then PInf else NInf)"
| "exact_div NaN y = NaN"
| "exact_div x NaN = NaN"
| "exact_div (Fin a) y = Fin 0"
| "exact_div x (Fin b) = (if 0 < fp_sign x * fp_sign (Fin b) then PInf else NInf)"
| "exact_div x y = NaN"

fun exact_log :: "fp \<Rightarrow> fp" where
  "exact_log (Fin a) = (if 0 < a then Fin (ln a) else if a = 0 then NInf else NaN)"
| "exact_log PInf = PInf"
| "exact_log x = NaN"

definition mantissa_to_double :: "32 word \<Rightarrow> 32 word \<Rightarrow> fp" where
  "mantissa_to_double x0 x1 =
     Fin (real (unat (take_bit 20 x0) * 2 ^ 32 + unat x1) / 2 ^ 52)"

definition alternating_blocks :: "nat \<Rightarrow> nat \<Rightarrow> 32 word" where
  "alternating_blocks k i = (if even (i div 4) then 0 else 4294967295)"

definition one_shard :: "nat \<Rightarrow> int \<Rightarrow> (nat \<times> nat) list" where
  "one_shard n cost = (if n = 0 then [] else [(0, n)])"

definition per_row_shards :: "nat \<Rightarrow> int \<Rightarrow> (nat \<times> nat) list" where
  "per_row_shards n cost = map (\<lambda>b. (b, Suc b)) [0..<n]"

definition exact_machine :: machine where
  "exact_machine =
     \<lparr>lowest = - 340282346638528859811704183484516925440,
      fsub = exact_sub, fexp = exact_exp, fadd = exact_add, fmul = exact_mul,
      fdiv = exact_div, flog = exact_log,
      philox_out = alternating_blocks,
      uint64_to_double = mantissa_to_double,
      shard_ranges = one_shard,
      generate_key = (\<lambda>seed. (nat (seed ! 0), nat (seed ! 1)))\<rparr>"

section \<open>Lemmas about the loops\<close>

lemma upper_bound_loop_le:
  "upper_bound_loop cdf v first len \<le> first + len"
proof (induction cdf v first len rule: upper_bound_loop.induct)
  case (1 cdf v first len)
  show ?case
  proof (cases "0 < len")
    case False
    then show ?thesis by (simp add: upper_bound_loop.simps)
  next
    case True
    show ?thesis
    proof (cases "fp_less v (cdf ! (first + len div 2))")
      case True
      with \<open>0 < len\<close> 1(1)[OF \<open>0 < len\<close> refl refl True] show ?thesis
        by (subst upper_bound_loop.simps) (simp add: Let_def)
    next
      case False
      with \<open>0 < len\<close> 1(2)[OF \<open>0 < len\<close> refl refl False] show ?thesis
        by (subst upper_bound_loop.simps) (simp add: Let_def)
    qed
  qed
qed

lemma upper_bound_loop_lt:
  "0 < len \<Longrightarrow> fp_less v (cdf ! (first + len - 1)) \<Longrightarrow>
   upper_bound_loop cdf v first len < first + len"
proof (induction cdf v first len rule: upper_bound_loop.induct)
  case (1 cdf v first len)
  show ?case
  proof (cases "fp_less v (cdf ! (first + len div 2))")
    case True
    have "upper_bound_loop cdf v first (len div 2) \<le> first + len div 2"
      by (rule upper_bound_loop_le)
    with True 1(3) show ?thesis
      by (subst upper_bound_loop.simps) (simp add: Let_def)
  next
    case False
    show ?thesis
    proof (cases "0 < len - len div 2 - 1")
      case True
      have eq: "first + len div 2 + 1 + (len - len div 2 - 1) - 1 = first + len - 1"
        using True by simp
      from 1(2)[OF 1(3) refl refl False True] 1(4) eq
      have "upper_bound_loop cdf v (first + len div 2 + 1) (len - len div 2 - 1)
            < first + len div 2 + 1 + (len - len div 2 - 1)" by simp
      with False 1(3) show ?thesis
        by (subst upper_bound_loop.simps) (simp add: Let_def)
    next
      case F2: False
      then have "first + len div 2 = first + len - 1" using 1(3) by simp
      with False 1(4) show ?thesis by simp
    qed
  qed
qed

lemma upper_bound_loop_least:
  "\<forall>i j. i \<le> j \<and> j < length cdf \<longrightarrow> fp_less v (cdf ! i) \<longrightarrow> fp_less v (cdf ! j) \<Longrightarrow>
   first + len \<le> length cdf \<Longrightarrow>
   \<forall>i<first. \<not> fp_less v (cdf ! i) \<Longrightarrow>
   \<forall>i. first + len \<le> i \<and> i < length cdf \<longrightarrow> fp_less v (cdf ! i) \<Longrightarrow>
   (\<forall>i < upper_bound_loop cdf v first len. \<not> fp_less v (cdf ! i)) \<and>
   (\<forall>i. upper_bound_loop cdf v first len \<le> i \<and> i < length cdf \<longrightarrow> fp_less v (cdf ! i))"
proof (induction cdf v first len rule: upper_bound_loop.induct)
  case (1 cdf v first len)
  note mono = 1(3) and bound = 1(4) and below = 1(5) and above = 1(6)
  show ?case
  proof (cases "0 < len")
    case False
    with below above show ?thesis by (simp add: upper_bound_loop.simps)
  next
    case pos: True
    let ?mid = "first + len div 2"
    have midlt: "?mid < length cdf" using pos bound by simp
    show ?thesis
    proof (cases "fp_less v (cdf ! ?mid)")
      case True
      have a: "\<forall>i. first + len div 2 \<le> i \<and> i < length cdf \<longrightarrow> fp_less v (cdf ! i)"
        using True mono by blast
      have b: "first + len div 2 \<le> length cdf" using midlt by simp
      from 1(1)[OF pos refl refl True mono b below a]
      show ?thesis using True pos
        by (subst (1 2) upper_bound_loop.simps) (simp add: Let_def)
    next
      case False
      have a: "\<forall>i<?mid + 1. \<not> fp_less v (cdf ! i)"
      proof (intro allI impI)
        fix i assume "i < ?mid + 1"
        then have "i \<le> ?mid" by simp
        with False midlt mono show "\<not> fp_less v (cdf ! i)" by blast
      qed
      have b: "?mid + 1 + (len - len div 2 - 1) \<le> length cdf" using bound pos by simp
      have c: "\<forall>i. ?mid + 1 + (len - len div 2 - 1) \<le> i \<and> i < length cdf \<longrightarrow> fp_less v (cdf ! i)"
        using above pos by simp
      from 1(2)[OF pos refl refl False mono b a c]
      show ?thesis using False pos
        by (subst (1 2) upper_bound_loop.simps) (simp add: Let_def)
    qed
  qed
qed

lemma set_finite_values: "set (finite_values xs) = {r. Fin r \<in> set xs}"
  by (induction xs rule: finite_values.induct) auto

lemma finite_values_nonempty: "has_finite xs \<Longrightarrow> finite_values xs \<noteq> []"
  unfolding has_finite_def
  by (induction xs rule: finite_values.induct) auto

lemma std_max_Fin: "std_max (Fin a) (Fin b) = Fin (max a b)"
  by (simp add: std_max_def max_def)

lemma max_loop_Fin: "max_loop (Fin m) xs = Fin (Max (set (m # finite_values xs)))"
proof (induction xs arbitrary: m)
  case Nil
  show ?case by simp
next
  case (Cons x xs)
  show ?case
  proof (cases x)
    case (Fin r)
    have "Max (insert (max m r) (set (finite_values xs))) = Max (insert m (insert r (set (finite_values xs))))"
      by (cases "finite_values xs = []") (simp_all add: max.assoc)
    with Fin Cons[of "max m r"] show ?thesis by (simp add: std_max_Fin)
  qed (use Cons[of m] in simp_all)
qed

lemma row_max_eq:
  assumes "row_of_T env row" "has_finite row"
  shows "row_max env row = Fin (Max (set (finite_values row)))"
proof -
  have ne: "finite_values row \<noteq> []" using assms(2) by (rule finite_values_nonempty)
  have "\<forall>r \<in> set (finite_values row). lowest env \<le> r"
    using assms(1) by (simp add: row_of_T_def set_finite_values)
  then have "lowest env \<le> Max (set (finite_values row))"
    using ne by (meson List.finite_set Max_ge_iff last_in_set set_empty)
  then have "Max (insert (lowest env) (set (finite_values row))) = Max (set (finite_values row))"
    using ne by (simp add: max_def)
  then show ?thesis by (simp add: row_max_def max_loop_Fin)
qed

lemma accumulate_zip:
  "accumulate env rt (zip row (map f row)) =
     (map (\<lambda>j. foldl (fadd env) rt (map f (filter isfinite (take (Suc j) row)))) [0..<length row],
      foldl (fadd env) rt (map f (filter isfinite row)))"
proof (induction row arbitrary: rt)
  case Nil
  show ?case by simp
next
  case (Cons x row)
  have shift: "[0..<Suc (length row)] = 0 # map Suc [0..<length row]"
    by (simp add: upt_conv_Cons map_Suc_upt del: upt_Suc)
  show ?case
    by (simp add: Cons Let_def shift comp_def del: upt_Suc)
qed

lemma build_cdf_eq:
  "build_cdf env row =
     (map (\<lambda>j. fsum env (map (\<lambda>x. fexp env (fsub env x (row_max env row)))
                          (filter isfinite (take (Suc j) row)))) [0..<length row],
      fsum env (map (\<lambda>x. fexp env (fsub env x (row_max env row))) (filter isfinite row)))"
  by (simp add: build_cdf_def exp_shifted_def accumulate_zip fsum_def Let_def)

lemma RandDouble_eq:
  "RandDouble env sp = (draw env sp 0, advance 2 sp)"
  by (simp add: RandDouble_def single_def draw_def advance_def Let_def)

lemma draw_advance: "draw env (advance 2 sp) i = draw env sp (Suc i)"
  by (simp add: draw_def advance_def)

lemma advance_advance: "advance a (advance b sp) = advance (b + a) sp"
  by (simp add: advance_def add.assoc)

lemma sample_loop_eq:
  "sample_loop env cdf t n sp =
     (map (\<lambda>i. upper_bound cdf (fmul env (draw env sp i) t)) [0..<n], advance (2 * n) sp)"
proof (induction n arbitrary: sp)
  case 0
  show ?case by (simp add: advance_def)
next
  case (Suc n)
  have shift: "[0..<Suc n] = 0 # map Suc [0..<n]"
    by (simp add: upt_conv_Cons map_Suc_upt del: upt_Suc)
  show ?case
    by (simp add: RandDouble_eq Suc Let_def shift comp_def draw_advance advance_advance del: upt_Suc)
qed

lemma fold_add_props:
  "add_monotone env \<Longrightarrow> 0 \<le> a \<Longrightarrow>
   \<forall>c \<in> set es. \<exists>e. c = Fin e \<and> 0 \<le> e \<and> e \<le> 1 \<Longrightarrow>
   \<exists>t. foldl (fadd env) (Fin a) es = Fin t \<and> a \<le> t \<and> (\<forall>e. Fin e \<in> set es \<longrightarrow> e \<le> t)"
proof (induction es arbitrary: a)
  case Nil
  then show ?case by simp
next
  case (Cons c es)
  from Cons.prems(3) obtain e where c: "c = Fin e" "0 \<le> e" "e \<le> 1" by auto
  with Cons.prems(1,2) obtain s where s: "fadd env (Fin a) (Fin e) = Fin s" "a \<le> s" "e \<le> s"
    unfolding add_monotone_def by blast
  have "0 \<le> s" using s(2) Cons.prems(2) by simp
  from Cons.IH[OF Cons.prems(1) this] Cons.prems(3)
  obtain t where t: "foldl (fadd env) (Fin s) es = Fin t" "s \<le> t" "\<forall>e. Fin e \<in> set es \<longrightarrow> e \<le> t"
    by auto
  show ?case using c s t by auto
qed

lemma shifted_unit:
  assumes "exp_in_unit env" "row_of_T env row" "has_finite row" "x \<in> set row" "isfinite x"
  shows "\<exists>e. shifted env row x = Fin e \<and> 0 \<le> e \<and> e \<le> 1"
proof -
  from assms(5) obtain r where x: "x = Fin r" by (cases x) auto
  then have "r \<in> set (finite_values row)" using assms(4) by (simp add: set_finite_values)
  then have "r \<le> Max (set (finite_values row))" by simp
  with assms(1) show ?thesis
    unfolding exp_in_unit_def shifted_def row_max_eq[OF assms(2,3)] x by blast
qed

lemma shifted_max:
  assumes "exp_of_zero_shift env" "row_of_T env row" "has_finite row"
  shows "\<exists>x \<in> set row. isfinite x \<and> shifted env row x = Fin 1"
proof -
  have "finite_values row \<noteq> []" using assms(3) by (rule finite_values_nonempty)
  then have "Max (set (finite_values row)) \<in> set (finite_values row)"
    by (simp add: Max_in)
  then have "Fin (Max (set (finite_values row))) \<in> set row"
    by (simp add: set_finite_values)
  moreover have "shifted env row (Fin (Max (set (finite_values row)))) = Fin 1"
    using assms(1) unfolding exp_of_zero_shift_def shifted_def row_max_eq[OF assms(2,3)] by blast
  ultimately show ?thesis by force
qed

lemma build_cdf_prefix:
  "build_cdf env row = (map (\<lambda>j. prefix_sum env row (Suc j)) [0..<length row],
                        prefix_sum env row (length row))"
proof -
  have e: "(\<lambda>x. fexp env (fsub env x (row_max env row))) = shifted env row"
    by (rule ext) (simp add: shifted_def)
  show ?thesis by (simp add: build_cdf_eq prefix_sum_def e)
qed

lemma prefix_sum_Fin:
  assumes "add_monotone env" "exp_in_unit env" "row_of_T env row" "has_finite row"
  shows "\<exists>t. prefix_sum env row n = Fin t \<and> 0 \<le> t"
proof -
  have "\<forall>c \<in> set (map (shifted env row) (filter isfinite (take n row))).
          \<exists>e. c = Fin e \<and> 0 \<le> e \<and> e \<le> 1"
    using shifted_unit[OF assms(2,3,4)] by (auto dest: in_set_takeD)
  from fold_add_props[OF assms(1) order_refl this] show ?thesis
    unfolding prefix_sum_def fsum_def by blast
qed

lemma prefix_sum_mono:
  assumes "add_monotone env" "exp_in_unit env" "row_of_T env row" "has_finite row"
    and "i \<le> j" "prefix_sum env row i = Fin a" "prefix_sum env row j = Fin b"
  shows "a \<le> b"
proof -
  have split: "take j row = take i row @ take (j - i) (drop i row)"
    using assms(5) by (metis le_add_diff_inverse take_add)
  let ?rest = "map (shifted env row) (filter isfinite (take (j - i) (drop i row)))"
  have unit: "\<forall>c \<in> set ?rest. \<exists>e. c = Fin e \<and> 0 \<le> e \<and> e \<le> 1"
    using shifted_unit[OF assms(2,3,4)] by (auto dest!: in_set_takeD in_set_dropD)
  have a0: "0 \<le> a" using prefix_sum_Fin[OF assms(1-4), of i] assms(6) by auto
  have "prefix_sum env row j = foldl (fadd env) (prefix_sum env row i) ?rest"
    unfolding prefix_sum_def fsum_def split by simp
  with fold_add_props[OF assms(1) a0 unit] assms(6,7) show ?thesis by auto
qed

lemma total_ge_1:
  assumes "ieee_like env" "row_of_T env row" "has_finite row"
  shows "\<exists>t. prefix_sum env row (length row) = Fin t \<and> 1 \<le> t"
proof -
  from assms(1) have am: "add_monotone env" and eu: "exp_in_unit env" and ez: "exp_of_zero_shift env"
    by (simp_all add: ieee_like_def)
  have unit: "\<forall>c \<in> set (map (shifted env row) (filter isfinite row)).
          \<exists>e. c = Fin e \<and> 0 \<le> e \<and> e \<le> 1"
    using shifted_unit[OF eu assms(2,3)] by auto
  from shifted_max[OF ez assms(2,3)]
  have "Fin 1 \<in> set (map (shifted env row) (filter isfinite row))" by force
  with fold_add_props[OF am order_refl unit] show ?thesis
    unfolding prefix_sum_def fsum_def by auto
qed

lemma sample_row_eq:
  "sample_row env row K sp =
     (map (\<lambda>i. upper_bound (fst (build_cdf env row))
                  (fmul env (draw env sp i) (snd (build_cdf env row)))) [0..<K],
      advance (2 * K) sp)"
  by (simp add: sample_row_def sample_loop_eq case_prod_beta)

lemma length_rows_loop: "length (rows_loop env logits K bs sp out) = length out"
  by (induction bs arbitrary: sp out) (simp_all add: case_prod_beta)

lemma rows_loop_nth:
  "b < length out \<Longrightarrow>
   rows_loop env logits K [s..<s + n] sp out ! b =
     (if s \<le> b \<and> b < s + n
      then fst (sample_row env (logits ! b) K (advance (2 * K * (b - s)) sp))
      else out ! b)"
proof (induction n arbitrary: s sp out)
  case 0
  then show ?case by auto
next
  case (Suc n)
  have unfold: "[s..<s + Suc n] = s # [Suc s..<Suc s + n]"
    by (simp add: upt_conv_Cons del: upt_Suc)
  have len: "b < length (out[s := fst (sample_row env (logits ! s) K sp)])"
    using Suc.prems by simp
  have snd_eq: "snd (sample_row env (logits ! s) K sp) = advance (2 * K) sp"
    by (simp add: sample_row_eq)
  have step: "rows_loop env logits K [s..<s + Suc n] sp out =
      rows_loop env logits K [Suc s..<Suc s + n] (advance (2 * K) sp)
        (out[s := fst (sample_row env (logits ! s) K sp)])"
    unfolding unfold by (simp add: case_prod_beta snd_eq del: upt_Suc)
  have adv: "advance (2 * K * (b - Suc s)) (advance (2 * K) sp) = advance (2 * K * (b - s)) sp"
    if "Suc s \<le> b"
  proof -
    from that have "2 * K + 2 * K * (b - Suc s) = 2 * K * (b - s)"
      by (metis Suc_diff_le diff_Suc_Suc mult_Suc_right)
    then show ?thesis by (simp add: advance_advance)
  qed
  have adv0: "advance 0 sp = sp" by (simp add: advance_def)
  show ?case
  proof (cases "b = s")
    case True
    then show ?thesis
      unfolding step Suc.IH[OF len] using Suc.prems by (simp add: adv0)
  next
    case False
    then show ?thesis
      unfolding step Suc.IH[OF len] using Suc.prems by (auto simp: adv)
  qed
qed

lemma DoWork_rows_nth:
  assumes "b < length out"
  shows "DoWork_rows env gen K logits out (s, l) ! b =
     (if s \<le> b \<and> b < l
      then fst (sample_row env (logits ! b) K (row_stream gen K s b))
      else out ! b)"
proof (cases "s \<le> l")
  case True
  then have "[s..<l] = [s..<s + (l - s)]" by simp
  then show ?thesis
    using rows_loop_nth[OF assms, of env logits K s "l - s"] True
    by (simp add: DoWork_rows_def row_stream_def Let_def)
next
  case False
  then show ?thesis by (auto simp: DoWork_rows_def Let_def)
qed

lemma length_DoWork_rows: "length (DoWork_rows env gen K logits out shard) = length out"
  by (simp add: DoWork_rows_def Let_def length_rows_loop)

lemma length_rows_of_shards: "length (rows_of_shards env gen K logits shards out) = length out"
  unfolding rows_of_shards_def
  by (induction shards arbitrary: out) (simp_all add: length_DoWork_rows)

lemma shard_start_found:
  "shard_start found shards b =
     (case shard_start None shards b of Some s \<Rightarrow> Some s | None \<Rightarrow> found)"
proof (induction shards arbitrary: found)
  case Nil
  show ?case by simp
next
  case (Cons x shards)
  obtain s l where x: "x = (s, l)" by (cases x)
  show ?case
  proof (cases "s \<le> b \<and> b < l")
    case True
    then show ?thesis
      by (simp add: x Cons[of "Some s"] split: option.splits)
  next
    case False
    then show ?thesis
      using Cons[of found] by (auto simp: x)
  qed
qed

lemma rows_of_shards_nth:
  "b < length out \<Longrightarrow>
   rows_of_shards env gen K logits shards out ! b =
     (case shard_start None shards b of
        Some s \<Rightarrow> fst (sample_row env (logits ! b) K (row_stream gen K s b))
      | None \<Rightarrow> out ! b)"
proof (induction shards arbitrary: out)
  case Nil
  show ?case by (simp add: rows_of_shards_def)
next
  case (Cons x shards)
  obtain s l where x: "x = (s, l)" by (cases x)
  have len: "b < length (DoWork_rows env gen K logits out (s, l))"
    using Cons.prems by (simp add: length_DoWork_rows)
  have step: "rows_of_shards env gen K logits (x # shards) out =
              rows_of_shards env gen K logits shards (DoWork_rows env gen K logits out (s, l))"
    by (simp add: rows_of_shards_def x)
  have lhs: "rows_of_shards env gen K logits (x # shards) out ! b =
      (case shard_start None shards b of
         Some s' \<Rightarrow> fst (sample_row env (logits ! b) K (row_stream gen K s' b))
       | None \<Rightarrow> DoWork_rows env gen K logits out (s, l) ! b)"
    using Cons.IH[OF len] step by simp
  have rhs: "shard_start None (x # shards) b =
      (case shard_start None shards b of
         Some s' \<Rightarrow> Some s'
       | None \<Rightarrow> (if s \<le> b \<and> b < l then Some s else None))"
    unfolding x shard_start.simps by (rule shard_start_found)
  show ?case
    unfolding lhs rhs by (simp add: DoWork_rows_nth[OF Cons.prems] split: option.splits)
qed

lemma shard_start_Some:
  "(s, l) \<in> set shards \<Longrightarrow> s \<le> b \<Longrightarrow> b < l \<Longrightarrow> \<exists>s'. shard_start found shards b = Some s'"
proof (induction shards arbitrary: found)
  case Nil
  then show ?case by simp
next
  case (Cons x shards)
  obtain s0 l0 where x: "x = (s0, l0)" by (cases x)
  show ?case
  proof (cases "(s, l) \<in> set shards")
    case True
    from Cons.IH[OF True Cons.prems(2,3)] show ?thesis by (simp add: x)
  next
    case False
    with Cons.prems have "x = (s, l)" by simp
    then show ?thesis
      using Cons.prems(2,3)
      by (simp add: shard_start_found[of "Some s"] split: option.splits)
  qed
qed

lemma upper_bound_first_exceeding:
  assumes mono: "\<forall>i j. i \<le> j \<and> j < length cdf \<longrightarrow> fp_less v (cdf ! i) \<longrightarrow> fp_less v (cdf ! j)"
  shows "upper_bound cdf v = first_exceeding cdf v"
proof -
  define r where "r = upper_bound_loop cdf v 0 (length cdf)"
  have le: "r \<le> length cdf"
    unfolding r_def using upper_bound_loop_le[of cdf v 0 "length cdf"] by simp
  have p1: "0 + length cdf \<le> length cdf" by simp
  have p2: "\<forall>i<0. \<not> fp_less v (cdf ! i)" by simp
  have p3: "\<forall>i. 0 + length cdf \<le> i \<and> i < length cdf \<longrightarrow> fp_less v (cdf ! i)" by auto
  note both = upper_bound_loop_least[OF mono p1 p2 p3, folded r_def]
  have below: "\<not> fp_less v (cdf ! i)" if "i < r" for i
    using both that by blast
  have above: "fp_less v (cdf ! r)" if "r < length cdf"
    using both that by blast
  have "takeWhile (\<lambda>c. \<not> fp_less v c) cdf = take r cdf"
  proof (rule takeWhile_eq_take_P_nth)
    show "\<And>i. i < r \<Longrightarrow> i < length cdf \<Longrightarrow> \<not> fp_less v (cdf ! i)" by (rule below)
    show "r < length cdf \<Longrightarrow> \<not> \<not> fp_less v (cdf ! r)" using above by simp
  qed
  then have "length (takeWhile (\<lambda>c. \<not> fp_less v c) cdf) = r" using le by simp
  then show ?thesis by (simp only: upper_bound_def first_exceeding_def r_def)
qed

lemma row_cdf_facts:
  assumes "ieee_like env" "row_of_T env row" "has_finite row"
  shows "\<exists>rs t. fst (build_cdf env row) = map Fin rs \<and> length rs = length row \<and>
           sorted rs \<and> snd (build_cdf env row) = Fin t \<and> 1 \<le> t \<and> last rs = t \<and> rs \<noteq> []"
proof -
  from assms(1) have am: "add_monotone env" and eu: "exp_in_unit env"
    by (simp_all add: ieee_like_def)
  define val where "val n = (case prefix_sum env row n of Fin t \<Rightarrow> t | _ \<Rightarrow> 0)" for n
  have pv: "prefix_sum env row n = Fin (val n)" for n
    using prefix_sum_Fin[OF am eu assms(2,3), of n] by (auto simp: val_def)
  define rs where "rs = map (\<lambda>j. val (Suc j)) [0..<length row]"
  have ne: "row \<noteq> []" using assms(3) by (auto simp: has_finite_def)
  have 1: "fst (build_cdf env row) = map Fin rs"
    by (simp add: build_cdf_prefix rs_def pv)
  have 2: "length rs = length row" by (simp add: rs_def)
  have mono: "val i \<le> val j" if "i \<le> j" for i j
    using prefix_sum_mono[OF am eu assms(2,3) that pv pv] .
  have 3: "sorted rs"
    unfolding sorted_iff_nth_mono using mono by (simp add: rs_def)
  from total_ge_1[OF assms] pv have 5: "1 \<le> val (length row)" by auto
  have 6: "last rs = val (length row)"
    using ne by (simp add: rs_def last_map last_upt)
  have 4: "snd (build_cdf env row) = Fin (val (length row))"
    by (simp add: build_cdf_prefix pv)
  from 1 2 3 4 5 6 ne show ?thesis by (intro exI[of _ rs] exI[of _ "val (length row)"]) auto
qed

lemma draw_in_total:
  assumes "ieee_like env" "1 \<le> t"
  shows "\<exists>v. fmul env (draw env sp i) (Fin t) = Fin v \<and> 0 \<le> v \<and> v < t"
  using assms unfolding ieee_like_def draw_below_total_def draw_def by blast

lemma sorted_Fin_mono:
  assumes "sorted rs"
  shows "\<forall>i j. i \<le> j \<and> j < length (map Fin rs) \<longrightarrow>
           fp_less (Fin v) (map Fin rs ! i) \<longrightarrow> fp_less (Fin v) (map Fin rs ! j)"
proof (intro allI impI)
  fix i j assume ij: "i \<le> j \<and> j < length (map Fin rs)" and lt: "fp_less (Fin v) (map Fin rs ! i)"
  then have "rs ! i \<le> rs ! j" using assms by (simp add: sorted_iff_nth_mono)
  with ij lt show "fp_less (Fin v) (map Fin rs ! j)" by simp
qed

lemma sample_row_range:
  assumes "ieee_like env" "row_of_T env row" "has_finite row"
  shows "\<forall>i \<in> set (fst (sample_row env row K sp)). i < length row"
proof -
  from row_cdf_facts[OF assms] obtain rs t where
    f: "fst (build_cdf env row) = map Fin rs" "length rs = length row"
       "snd (build_cdf env row) = Fin t" "1 \<le> t" "last rs = t" "rs \<noteq> []" by blast
  have "upper_bound (map Fin rs) (fmul env (draw env sp n) (Fin t)) < length row" for n
  proof -
    from draw_in_total[OF assms(1) f(4)] obtain v where
      v: "fmul env (draw env sp n) (Fin t) = Fin v" "v < t" by blast
    have pos: "0 < length (map Fin rs)" using f(6) by simp
    have "map Fin rs ! (0 + length (map Fin rs) - 1) = Fin t"
      using f(5,6) by (simp add: last_conv_nth)
    with v have "fp_less (Fin v) (map Fin rs ! (0 + length (map Fin rs) - 1))" by simp
    from upper_bound_loop_lt[OF pos this] show ?thesis
      using f(2) v by (simp add: upper_bound_def)
  qed
  then show ?thesis by (auto simp: sample_row_eq f)
qed

lemma length_sample_row: "length (fst (sample_row env row K sp)) = K"
  by (simp add: sample_row_eq)

lemma build_cdf_nonfinite:
  assumes "\<not> has_finite row"
  shows "build_cdf env row = (replicate (length row) (Fin 0), Fin 0)"
proof -
  have "filter isfinite (take n row) = []" for n
    using assms by (auto simp: has_finite_def filter_empty_conv dest: in_set_takeD)
  moreover have "filter isfinite row = []"
    using assms by (auto simp: has_finite_def filter_empty_conv)
  ultimately show ?thesis
    by (simp add: build_cdf_eq fsum_def map_replicate_const)
qed

lemma upper_bound_zeros: "upper_bound (replicate n (Fin 0)) (Fin 0) = n"
proof -
  have "upper_bound (replicate n (Fin 0)) (Fin 0) = first_exceeding (replicate n (Fin 0)) (Fin 0)"
    by (rule upper_bound_first_exceeding) simp
  also have "\<dots> = n"
    by (simp add: first_exceeding_def takeWhile_eq_all_conv[THEN iffD2])
  finally show ?thesis .
qed

lemma sample_row_nonfinite:
  assumes "draw_times_zero env" "\<not> has_finite row"
  shows "fst (sample_row env row K sp) = replicate K (length row)"
proof -
  have z: "fmul env (draw env sp i) (Fin 0) = Fin 0" for i
    using assms(1) by (simp add: draw_times_zero_def draw_def)
  show ?thesis
    by (simp add: sample_row_eq build_cdf_nonfinite[OF assms(2)] z upper_bound_zeros
          map_replicate_const)
qed

lemma static_cast_int_eq:
  "static_cast_int k = k \<longleftrightarrow> - (2 ^ 31) \<le> k \<and> k < 2 ^ 31"
  by (simp add: static_cast_int_def sint_sbintrunc' signed_take_bit_int_eq_self_iff)

lemma static_cast_int_nat: "static_cast_int (int n) = int n \<longleftrightarrow> n < 2 ^ 31"
  unfolding static_cast_int_eq by simp

lemma static_cast_int_small: "n < 2 ^ 31 \<Longrightarrow> static_cast_int (int n) = int n"
  by (simp add: static_cast_int_nat)

lemma run_shards_ok:
  "run_shards env True gen K logits shards (st, out) =
     (st, rows_of_shards env gen K logits shards out)"
  unfolding run_shards_def rows_of_shards_def
  by (induction shards arbitrary: out) (simp_all add: DoWork_def)

lemma run_shards_fail:
  "run_shards env False gen K logits shards (st, out) =
     (if shards = [] then st
      else (case st of None \<Rightarrow> Some ResourceExhausted | Some e \<Rightarrow> Some e), out)"
  unfolding run_shards_def
  by (induction shards arbitrary: st) (auto simp: DoWork_def split: option.splits)

lemma DoCompute_valid:
  assumes "valid_inputs logits_t num_samples_t" "has_memory ctx"
  shows "DoCompute env ctx logits_t num_samples_t generator =
     (let B = shape logits_t ! 0; C = shape logits_t ! 1;
          K = nat (sint (hd (flat num_samples_t)));
          fresh = replicate B (replicate K 0);
          reserved = int_mul (int B)
                       (int_mul (int_mul (int_add (int K) 3 sdiv 4) 4) 2);
          done = MultinomialFunctor env (has_temp_memory ctx) (matrix logits_t) B C K
                   generator (status ctx, fresh)
      in if 0 < B * K
         then (ctx\<lparr>status := fst done,
                    output0 := Some ([int B, int K], snd done),
                    effects := effects ctx @
                      [AllocateOutput [int B, int K], ReserveOutputs reserved,
                       CallFunctor B C K]\<rparr>,
               Skip (nat (reserved * 256)) generator)
         else (ctx\<lparr>output0 := Some ([int B, int K], fresh),
                    effects := effects ctx @ [AllocateOutput [int B, int K]]\<rparr>,
               generator))"
proof -
  from assms(1) have v: "IsMatrix (shape logits_t)" "IsScalar (shape num_samples_t)"
    "0 \<le> sint (hd (flat num_samples_t))"
    "static_cast_int (int (shape logits_t ! 0)) = int (shape logits_t ! 0)"
    "static_cast_int (int (shape logits_t ! 1)) = int (shape logits_t ! 1)"
    "0 < shape logits_t ! 1"
    by (simp_all add: valid_inputs_def static_cast_int_nat del: One_nat_def)
  have k: "int (nat (sint (hd (flat num_samples_t)))) = sint (hd (flat num_samples_t))"
    using v(3) by simp
  have pos: "0 < int (shape logits_t ! 0) * sint (hd (flat num_samples_t)) \<longleftrightarrow>
             0 < shape logits_t ! 0 * nat (sint (hd (flat num_samples_t)))"
    using v(3) by (simp add: zero_less_mult_iff zero_less_nat_eq)
  show ?thesis
    unfolding DoCompute_def Let_def dim_size_def
    by (simp add: v pos allocate_output_def assms(2) ReserveRandomOutputs_def k Let_def
          case_prod_beta del: One_nat_def)
qed

lemma static_cast_int_0: "static_cast_int 0 = 0"
  by (simp add: static_cast_int_def)

lemma DoCompute_invalid:
  assumes "\<not> valid_inputs logits_t num_samples_t"
  shows "\<exists>c. DoCompute env ctx logits_t num_samples_t generator =
           (fail ctx (InvalidArgument c), generator)"
proof -
  consider "\<not> IsMatrix (shape logits_t)"
    | "IsMatrix (shape logits_t)" "\<not> IsScalar (shape num_samples_t)"
    | "IsMatrix (shape logits_t)" "IsScalar (shape num_samples_t)"
      "\<not> 0 \<le> sint (hd (flat num_samples_t))"
    | "IsMatrix (shape logits_t)" "IsScalar (shape num_samples_t)"
      "0 \<le> sint (hd (flat num_samples_t))" "\<not> shape logits_t ! 0 < 2 ^ 31"
    | "IsMatrix (shape logits_t)" "IsScalar (shape num_samples_t)"
      "0 \<le> sint (hd (flat num_samples_t))" "shape logits_t ! 0 < 2 ^ 31"
      "\<not> shape logits_t ! 1 < 2 ^ 31"
    | "IsMatrix (shape logits_t)" "IsScalar (shape num_samples_t)"
      "0 \<le> sint (hd (flat num_samples_t))" "shape logits_t ! 0 < 2 ^ 31"
      "shape logits_t ! 1 < 2 ^ 31" "shape logits_t ! 1 = 0"
    using assms unfolding valid_inputs_def by fastforce
  then show ?thesis
  proof cases
    case 1
    then show ?thesis
      by (intro exI[of _ LogitsNotMatrix]) (simp add: DoCompute_def)
  next
    case 2
    then show ?thesis
      by (intro exI[of _ NumSamplesNotScalar]) (simp add: DoCompute_def)
  next
    case 3
    then show ?thesis
      by (intro exI[of _ NumSamplesNegative]) (simp add: DoCompute_def Let_def)
  next
    case 4
    then show ?thesis
      by (intro exI[of _ TooLargeForInt])
         (simp add: DoCompute_def Let_def dim_size_def static_cast_int_nat del: One_nat_def)
  next
    case 5
    then show ?thesis
      by (intro exI[of _ TooLargeForInt])
         (simp add: DoCompute_def Let_def dim_size_def static_cast_int_nat del: One_nat_def)
  next
    case 6
    then show ?thesis
      by (intro exI[of _ NumClassesNotPositive])
         (simp add: DoCompute_def Let_def dim_size_def static_cast_int_nat static_cast_int_0
            del: One_nat_def)
  qed
qed

lemma op_output_Some:
  assumes "op_output env logits_t num_samples_t generator = Some rows"
  shows "valid_inputs logits_t num_samples_t \<and>
     rows = (let B = shape logits_t ! 0; C = shape logits_t ! 1;
                 K = nat (sint (hd (flat num_samples_t)));
                 fresh = replicate B (replicate K 0)
             in if 0 < B * K
                then rows_of_shards env generator K (matrix logits_t)
                       (shard_ranges env B (work_cost env K C)) fresh
                else fresh)"
proof (cases "valid_inputs logits_t num_samples_t")
  case True
  have m: "has_memory (new_context True True)" by (simp add: new_context_def)
  from assms True show ?thesis
    unfolding op_output_def DoCompute_valid[OF True m]
    by (auto simp: Let_def new_context_def MultinomialFunctor_def run_shards_ok
          split: if_splits)
next
  case False
  from DoCompute_invalid[OF False, of env "new_context True True" generator] assms
  show ?thesis
    by (auto simp: op_output_def fail_def)
qed

lemma op_output_row:
  assumes "sharder_covers env"
    and "op_output env logits_t num_samples_t generator = Some rows"
    and "b < shape logits_t ! 0"
  shows "\<exists>s. rows ! b =
           fst (sample_row env (matrix logits_t ! b) (nat (sint (hd (flat num_samples_t))))
                  (row_stream generator (nat (sint (hd (flat num_samples_t)))) s b))"
proof -
  let ?B = "shape logits_t ! 0" and ?C = "shape logits_t ! 1"
  let ?K = "nat (sint (hd (flat num_samples_t)))"
  let ?fresh = "replicate ?B (replicate ?K (0::nat))"
  let ?shards = "shard_ranges env ?B (work_cost env ?K ?C)"
  from op_output_Some[OF assms(2)]
  have rows: "rows = (if 0 < ?B * ?K
                then rows_of_shards env generator ?K (matrix logits_t) ?shards ?fresh
                else ?fresh)" by (simp add: Let_def)
  show ?thesis
  proof (cases "0 < ?B * ?K")
    case True
    from assms(1,3) obtain s l where "(s, l) \<in> set ?shards" "s \<le> b" "b < l"
      unfolding sharder_covers_def by blast
    from shard_start_Some[OF this] obtain s' where s': "shard_start None ?shards b = Some s'"
      by blast
    have "b < length ?fresh" using assms(3) by simp
    from rows_of_shards_nth[OF this, of env generator ?K "matrix logits_t" ?shards]
    show ?thesis using True rows s' by auto
  next
    case False
    with assms(3) have "?K = 0" by simp
    then show ?thesis using rows assms(3) by (simp add: sample_row_eq)
  qed
qed

lemma matrix_row:
  assumes "IsMatrix (shape t)" "b < shape t ! 0"
  shows "matrix t ! b = take (shape t ! 1) (drop (b * (shape t ! 1)) (flat t))"
  using assms by (simp add: matrix_def dim_size_def Let_def)

lemma length_matrix_row:
  assumes "b < shape t ! 0" "length (flat t) = shape t ! 0 * (shape t ! 1)"
  shows "length (matrix t ! b) = shape t ! 1"
proof -
  have "shape t ! 1 + b * (shape t ! 1) \<le> shape t ! 0 * (shape t ! 1)"
    using assms(1) by (metis Suc_leI mult_Suc mult_le_mono1)
  then show ?thesis using assms by (simp add: matrix_def dim_size_def Let_def)
qed

section \<open>The platform for running the kernel meets the assumptions\<close>

lemma mantissa_unit: "\<exists>u. mantissa_to_double x0 x1 = Fin u \<and> 0 \<le> u \<and> u < 1"
proof -
  define n where "n = unat (take_bit 20 x0) * 2 ^ 32 + unat x1"
  have a: "unat (take_bit 20 x0) < 2 ^ 20"
    using take_bit_nat_less_exp[of 20 "unat x0"] by (simp add: unsigned_take_bit_eq)
  have b: "unat x1 < 2 ^ 32" using unsigned_less[of x1] by simp
  from a have "unat (take_bit 20 x0) + 1 \<le> 2 ^ 20" by simp
  then have "(unat (take_bit 20 x0) + 1) * 2 ^ 32 \<le> 2 ^ 20 * 2 ^ 32"
    by (rule mult_le_mono1)
  with b have "n < 2 ^ 52" by (simp add: n_def)
  then have "real n < 2 ^ 52"
    by (metis of_nat_less_iff of_nat_numeral of_nat_power)
  then have "0 \<le> real n / 2 ^ 52 \<and> real n / 2 ^ 52 < 1" by simp
  moreover have "mantissa_to_double x0 x1 = Fin (real n / 2 ^ 52)"
    by (simp only: mantissa_to_double_def n_def)
  ultimately show ?thesis by blast
qed

lemma exact_machine_ieee_like: "ieee_like exact_machine"
proof -
  have 1: "exp_of_zero_shift exact_machine"
    by (simp add: exp_of_zero_shift_def exact_machine_def)
  have 2: "exp_in_unit exact_machine"
    by (simp add: exp_in_unit_def exact_machine_def)
  have 3: "add_monotone exact_machine"
    by (simp add: add_monotone_def exact_machine_def)
  have 4: "draw_below_total exact_machine"
    unfolding draw_below_total_def
  proof (intro allI impI)
    fix x0 x1 :: "32 word" and t :: real
    assume t: "1 \<le> t"
    from mantissa_unit[of x0 x1] obtain u where
      u: "mantissa_to_double x0 x1 = Fin u" "0 \<le> u" "u < 1" by blast
    have "u * t < 1 * t" using u(3) t by (intro mult_strict_right_mono) simp_all
    moreover have "0 \<le> u * t" using u(2) t by simp
    ultimately show "\<exists>v. fmul exact_machine (uint64_to_double exact_machine x0 x1) (Fin t) = Fin v
                      \<and> 0 \<le> v \<and> v < t"
      by (simp add: exact_machine_def u(1))
  qed
  from 1 2 3 4 show ?thesis by (simp add: ieee_like_def)
qed

lemma exact_machine_draw_times_zero: "draw_times_zero exact_machine"
  unfolding draw_times_zero_def
proof (intro allI)
  fix x0 x1 :: "32 word"
  from mantissa_unit[of x0 x1] obtain u where "mantissa_to_double x0 x1 = Fin u" by blast
  then show "fmul exact_machine (uint64_to_double exact_machine x0 x1) (Fin 0) = Fin 0"
    by (simp add: exact_machine_def)
qed

lemma exact_machine_sharder_covers: "sharder_covers exact_machine"
  by (auto simp: sharder_covers_def exact_machine_def one_shard_def)

lemmas eval_defs = build_cdf_def row_max_def exp_shifted_def std_max_def
  upper_bound_def sample_row_eq draw_def advance_def upt_conv_Cons
  exact_machine_def alternating_blocks_def mantissa_to_double_def Let_def

section \<open>Further lemmas\<close>

lemma upper_bound_sorted:
  assumes "sorted rs" "rs \<noteq> []" "v < last rs"
  shows "upper_bound (map Fin rs) (Fin v) < length rs \<and>
         fp_less (Fin v) (map Fin rs ! upper_bound (map Fin rs) (Fin v)) \<and>
         (\<forall>i < upper_bound (map Fin rs) (Fin v). \<not> fp_less (Fin v) (map Fin rs ! i))"
proof -
  let ?cdf = "map Fin rs"
  define r where "r = upper_bound_loop ?cdf (Fin v) 0 (length ?cdf)"
  have pos: "0 < length ?cdf" using assms(2) by simp
  have "?cdf ! (0 + length ?cdf - 1) = Fin (last rs)"
    using assms(2) by (simp add: last_conv_nth)
  then have "fp_less (Fin v) (?cdf ! (0 + length ?cdf - 1))" using assms(3) by simp
  from upper_bound_loop_lt[OF pos this] have lt: "r < length ?cdf" by (simp add: r_def)
  have p1: "0 + length ?cdf \<le> length ?cdf" by simp
  have p2: "\<forall>i<0. \<not> fp_less (Fin v) (?cdf ! i)" by simp
  have p3: "\<forall>i. 0 + length ?cdf \<le> i \<and> i < length ?cdf \<longrightarrow> fp_less (Fin v) (?cdf ! i)" by auto
  note both = upper_bound_loop_least[OF sorted_Fin_mono[OF assms(1)] p1 p2 p3, folded r_def]
  from both lt have "fp_less (Fin v) (?cdf ! r)" by blast
  moreover from both have "\<forall>i<r. \<not> fp_less (Fin v) (?cdf ! i)" by blast
  ultimately show ?thesis using lt unfolding upper_bound_def r_def by simp
qed

lemma shard_start_le:
  "shard_start found shards b = Some s \<Longrightarrow> found = Some s \<or> s \<le> b"
proof (induction shards arbitrary: found)
  case Nil
  then show ?case by simp
next
  case (Cons x shards)
  obtain s0 l0 where x: "x = (s0, l0)" by (cases x)
  from Cons.prems have
    "shard_start (if s0 \<le> b \<and> b < l0 then Some s0 else found) shards b = Some s"
    by (simp add: x)
  from Cons.IH[OF this] show ?case by (auto split: if_splits)
qed

lemma DoCompute_no_memory:
  assumes "valid_inputs logits_t num_samples_t" "\<not> has_memory ctx"
  shows "DoCompute env ctx logits_t num_samples_t generator =
           (fail ctx ResourceExhausted, generator)"
proof -
  from assms(1) have v: "IsMatrix (shape logits_t)" "IsScalar (shape num_samples_t)"
    "0 \<le> sint (hd (flat num_samples_t))"
    "static_cast_int (int (shape logits_t ! 0)) = int (shape logits_t ! 0)"
    "static_cast_int (int (shape logits_t ! 1)) = int (shape logits_t ! 1)"
    "0 < shape logits_t ! 1"
    by (simp_all add: valid_inputs_def static_cast_int_nat del: One_nat_def)
  show ?thesis
    unfolding DoCompute_def Let_def dim_size_def
    by (simp add: v allocate_output_def assms(2) del: One_nat_def)
qed

lemma not_valid_iff:
  "\<not> valid_inputs logits_t num_samples_t \<longleftrightarrow>
     listed_invalid logits_t num_samples_t \<or>
     (IsMatrix (shape logits_t) \<and>
      (2 ^ 31 \<le> shape logits_t ! 0 \<or> 2 ^ 31 \<le> shape logits_t ! 1))"
  unfolding valid_inputs_def listed_invalid_def by (auto simp del: One_nat_def)

lemma fail_new_context:
  "fail (new_context mem temp) e =
     \<lparr>status = Some e, output0 = None, effects = [], has_memory = mem, has_temp_memory = temp\<rparr>"
  by (simp add: fail_def new_context_def)

lemma functor_status:
  "\<not> is_invalid_argument (fst (MultinomialFunctor env temp logits B C K gen (None, out)))"
  by (cases temp)
     (simp_all add: MultinomialFunctor_def run_shards_ok run_shards_fail is_invalid_argument_def)

lemma DoCompute_status:
  "is_invalid_argument (status (fst (DoCompute env (new_context mem temp) logits_t num_samples_t g)))
     \<longleftrightarrow> \<not> valid_inputs logits_t num_samples_t"
proof (cases "valid_inputs logits_t num_samples_t")
  case True
  show ?thesis
  proof (cases mem)
    case True
    have m: "has_memory (new_context mem temp)" using True by (simp add: new_context_def)
    show ?thesis
      using \<open>valid_inputs logits_t num_samples_t\<close>
        functor_status[of env temp "matrix logits_t" "shape logits_t ! 0" "shape logits_t ! 1"
          "nat (sint (hd (flat num_samples_t)))" g
          "replicate (shape logits_t ! 0) (replicate (nat (sint (hd (flat num_samples_t)))) 0)"]
      unfolding DoCompute_valid[OF \<open>valid_inputs logits_t num_samples_t\<close> m]
      by (auto simp: Let_def is_invalid_argument_def new_context_def simp del: One_nat_def)
  next
    case False
    have m: "\<not> has_memory (new_context mem temp)" using False by (simp add: new_context_def)
    show ?thesis
      using \<open>valid_inputs logits_t num_samples_t\<close>
      unfolding DoCompute_no_memory[OF \<open>valid_inputs logits_t num_samples_t\<close> m]
      by (simp add: is_invalid_argument_def fail_def)
  qed
next
  case False
  from DoCompute_invalid[OF False, of env "new_context mem temp" g] False
  show ?thesis by (auto simp: is_invalid_argument_def fail_def)
qed

lemma DoCompute_invalid_result:
  assumes "is_invalid_argument (status (fst (DoCompute env (new_context mem temp) logits_t num_samples_t g)))"
  shows "DoCompute env (new_context mem temp) logits_t num_samples_t g =
     (\<lparr>status = status (fst (DoCompute env (new_context mem temp) logits_t num_samples_t g)),
       output0 = None, effects = [], has_memory = mem, has_temp_memory = temp\<rparr>, g)"
proof -
  from assms have "\<not> valid_inputs logits_t num_samples_t" by (simp add: DoCompute_status)
  from DoCompute_invalid[OF this, of env "new_context mem temp" g]
  show ?thesis by (auto simp: fail_new_context)
qed

lemma StatelessCompute_eq:
  "StatelessCompute env op ctx logits_t num_samples_t seed_t =
     (if seed_is_shape_2 seed_t
      then (fst (DoCompute env ctx logits_t num_samples_t
                   (Init (snd (generate_key env (flat seed_t)))
                         (fst (generate_key env (flat seed_t))))), op)
      else (fail ctx (InvalidArgument SeedNotShape2), op))"
  by (simp add: StatelessCompute_def seed_is_shape_2_def dim_size_def case_prod_beta Let_def)

text \<open>The stateful kernel, in contrast to the stateless one, leaves its generator
  advanced: one row of one sample reserves \<open>8 * 256\<close> blocks.\<close>

lemma stateful_advances_generator:
  "snd (StatefulCompute exact_machine \<lparr>member_generator = \<lparr>key = 0, counter = 0\<rparr>\<rparr>
          (new_context True True) \<lparr>shape = [1, 2], flat = [Fin 0, Fin 0]\<rparr>
          \<lparr>shape = [], flat = [1]\<rparr>) =
   \<lparr>member_generator = \<lparr>key = 0, counter = 2048\<rparr>\<rparr>"
proof -
  let ?L = "\<lparr>shape = [1, 2], flat = [Fin 0, Fin 0]\<rparr>"
  let ?N = "\<lparr>shape = [], flat = [1 :: 32 word]\<rparr>"
  have v: "valid_inputs ?L ?N"
    by (simp add: valid_inputs_def IsMatrix_def IsScalar_def)
  have m: "has_memory (new_context True True)" by (simp add: new_context_def)
  have c: "static_cast_int 4 = 4" "static_cast_int 8 = 8"
    by (simp_all add: static_cast_int_def)
  have r: "int_mul 1 (int_mul (int_mul (int_add 1 3 sdiv 4) 4) 2) = 8"
    by (simp add: int_mul_def int_add_def c signed_divide_int_def)
  show ?thesis
    unfolding StatefulCompute_def DoCompute_valid[OF v m]
    by (simp add: Let_def case_prod_beta r Skip_def)
qed

text \<open>The sharder decides the ranges and nothing else: what it does to the result of
  \<open>DoCompute\<close> goes through the positions at which the rows start to draw.\<close>

lemma sample_row_sharder:
  "sample_row (env\<lparr>shard_ranges := f\<rparr>) row K sp = sample_row env row K sp"
  by (simp add: sample_row_eq build_cdf_eq fsum_def row_max_def draw_def)

lemma work_cost_sharder: "work_cost (env\<lparr>shard_ranges := f\<rparr>) K C = work_cost env K C"
  by (simp add: work_cost_def)

lemma row_stream_offset:
  "row_stream gen K s b =
     \<lparr>sp_key = key gen,
      sp_next = 4 * counter gen + (4 * skip_blocks s K + 2 * K * (b - s))\<rparr>"
  by (simp add: row_stream_def advance_def SimplePhilox_def Skip_def)

lemma rows_of_shards_offsets:
  assumes "\<forall>b < length out. row_offset K shards1 b = row_offset K shards2 b"
  shows "rows_of_shards (env\<lparr>shard_ranges := f\<rparr>) gen K logits shards2 out =
         rows_of_shards env gen K logits shards1 out"
proof (rule nth_equalityI)
  show "length (rows_of_shards (env\<lparr>shard_ranges := f\<rparr>) gen K logits shards2 out) =
        length (rows_of_shards env gen K logits shards1 out)"
    by (simp add: length_rows_of_shards)
next
  fix b
  assume "b < length (rows_of_shards (env\<lparr>shard_ranges := f\<rparr>) gen K logits shards2 out)"
  then have b: "b < length out" by (simp add: length_rows_of_shards)
  with assms have eq: "row_offset K shards1 b = row_offset K shards2 b" by simp
  show "rows_of_shards (env\<lparr>shard_ranges := f\<rparr>) gen K logits shards2 out ! b =
        rows_of_shards env gen K logits shards1 out ! b"
    using eq
    by (auto simp: rows_of_shards_nth[OF b] sample_row_sharder row_stream_offset row_offset_def
          split: option.splits)
qed

lemma DoCompute_invalid_any:
  assumes "\<not> valid_inputs logits_t num_samples_t"
  shows "DoCompute env' ctx logits_t num_samples_t generator =
         DoCompute env ctx logits_t num_samples_t generator"
proof -
  from DoCompute_invalid[OF assms, of env ctx generator]
  obtain c where c: "DoCompute env ctx logits_t num_samples_t generator =
      (fail ctx (InvalidArgument c), generator)" by blast
  consider "\<not> IsMatrix (shape logits_t)"
    | "IsMatrix (shape logits_t)" "\<not> IsScalar (shape num_samples_t)"
    | "IsMatrix (shape logits_t)" "IsScalar (shape num_samples_t)"
      "\<not> 0 \<le> sint (hd (flat num_samples_t))"
    | "IsMatrix (shape logits_t)" "IsScalar (shape num_samples_t)"
      "0 \<le> sint (hd (flat num_samples_t))" "\<not> shape logits_t ! 0 < 2 ^ 31"
    | "IsMatrix (shape logits_t)" "IsScalar (shape num_samples_t)"
      "0 \<le> sint (hd (flat num_samples_t))" "shape logits_t ! 0 < 2 ^ 31"
      "\<not> shape logits_t ! 1 < 2 ^ 31"
    | "IsMatrix (shape logits_t)" "IsScalar (shape num_samples_t)"
      "0 \<le> sint (hd (flat num_samples_t))" "shape logits_t ! 0 < 2 ^ 31"
      "shape logits_t ! 1 < 2 ^ 31" "shape logits_t ! 1 = 0"
    using assms unfolding valid_inputs_def by fastforce
  then show ?thesis
    by cases
       (simp_all add: DoCompute_def Let_def dim_size_def static_cast_int_nat static_cast_int_0
          del: One_nat_def)
qed

lemma DoCompute_sharder:
  assumes "has_temp_memory ctx"
    and "\<forall>b < shape logits_t ! 0.
           row_offset (nat (sint (hd (flat num_samples_t))))
             (shard_ranges env (shape logits_t ! 0)
                (work_cost env (nat (sint (hd (flat num_samples_t)))) (shape logits_t ! 1))) b =
           row_offset (nat (sint (hd (flat num_samples_t))))
             (sharder (shape logits_t ! 0)
                (work_cost env (nat (sint (hd (flat num_samples_t)))) (shape logits_t ! 1))) b"
  shows "DoCompute (env\<lparr>shard_ranges := sharder\<rparr>) ctx logits_t num_samples_t g =
         DoCompute env ctx logits_t num_samples_t g"
proof (cases "valid_inputs logits_t num_samples_t")
  case False
  then show ?thesis by (rule DoCompute_invalid_any)
next
  case True
  show ?thesis
  proof (cases "has_memory ctx")
    case False
    show ?thesis by (simp add: DoCompute_no_memory[OF True False])
  next
    case m: True
    let ?B = "shape logits_t ! 0" and ?K = "nat (sint (hd (flat num_samples_t)))"
    have "\<forall>b < length (replicate ?B (replicate ?K (0::nat))).
           row_offset ?K
             (shard_ranges env ?B (work_cost env ?K (shape logits_t ! 1))) b =
           row_offset ?K (sharder ?B (work_cost env ?K (shape logits_t ! 1))) b"
      using assms(2) by simp
    from rows_of_shards_offsets[OF this]
    show ?thesis
      unfolding DoCompute_valid[OF True m]
      by (simp add: Let_def MultinomialFunctor_def assms(1) run_shards_ok work_cost_sharder
            del: One_nat_def)
  qed
qed

section \<open>The claims\<close>

text \<open>
  C3. The claim: for every partition of the rows into contiguous shards and every
  sample count, the generator ranges of distinct shards do not overlap, that is, a
  shard's starting offset \<open>skip_blocks start_row num_samples\<close> is at least the previous
  shard's starting offset plus the blocks its rows consume. The kernel does not keep
  this: with 4 samples per row and the shards \<open>[0, 1)\<close> and \<open>[1, 2)\<close>, the second shard
  starts at block 1 while the row of the first shard takes its four doubles from
  blocks 0 and 1, so that the third and fourth double of row 0 and the first and
  second double of row 1 are made of the same generator outputs, whatever the
  generator and the conversion are.
\<close>

theorem shard_streams_overlap:
  "skip_blocks 1 4 < skip_blocks 0 4 + blocks_consumed 4 (0, 1) \<and>
   sp_next (advance 4 (row_stream gen 4 0 0)) = sp_next (row_stream gen 4 1 1) \<and>
   draw env (row_stream gen 4 0 0) 2 = draw env (row_stream gen 4 1 1) 0 \<and>
   draw env (row_stream gen 4 0 0) 3 = draw env (row_stream gen 4 1 1) 1"
  by (simp add: skip_blocks_def blocks_consumed_def row_stream_def draw_def advance_def
        SimplePhilox_def Skip_def add.commute)

text \<open>
  C10. A rank-2 logits tensor with a dimension that does not fit a 32-bit \<open>int\<close>
  (a size of \<open>2 ^ 31\<close> or more) makes \<open>DoCompute\<close> end with an invalid-argument
  status, with no output allocated, no effect on the runtime and the generator as it
  was; when \<open>num_samples\<close> passes its own checks (a scalar that is not negative) the
  error is the one of the "too large for int" check.
\<close>

theorem too_large_for_int:
  assumes "IsMatrix (shape logits_t)"
    and "2 ^ 31 \<le> shape logits_t ! 0 \<or> 2 ^ 31 \<le> shape logits_t ! 1"
  shows "\<exists>c. DoCompute env (new_context mem temp) logits_t num_samples_t generator =
           (\<lparr>status = Some (InvalidArgument c), output0 = None, effects = [],
             has_memory = mem, has_temp_memory = temp\<rparr>, generator) \<and>
           (IsScalar (shape num_samples_t) \<and> 0 \<le> sint (hd (flat num_samples_t))
              \<longrightarrow> c = TooLargeForInt)"
proof -
  have f: "fail (new_context mem temp) e =
           \<lparr>status = Some e, output0 = None, effects = [], has_memory = mem, has_temp_memory = temp\<rparr>" for e
    by (simp add: fail_def new_context_def)
  show ?thesis
  proof (cases "IsScalar (shape num_samples_t) \<and> 0 \<le> sint (hd (flat num_samples_t))")
    case True
    with assms show ?thesis
      by (intro exI[of _ TooLargeForInt])
         (auto simp: DoCompute_def Let_def dim_size_def static_cast_int_nat f
            simp del: One_nat_def)
  next
    case False
    from assms(2) have "\<not> valid_inputs logits_t num_samples_t"
      by (auto simp: valid_inputs_def)
    from DoCompute_invalid[OF this, of env "new_context mem temp" generator] False
    show ?thesis by (auto simp: f)
  qed
qed

theorem too_large_for_int_witness:
  "IsMatrix [2147483648, 0] \<and>
   DoCompute exact_machine (new_context True True) \<lparr>shape = [2147483648, 0], flat = []\<rparr>
     \<lparr>shape = [], flat = [3]\<rparr> \<lparr>key = 7, counter = 0\<rparr> =
     (\<lparr>status = Some (InvalidArgument TooLargeForInt), output0 = None, effects = [],
       has_memory = True, has_temp_memory = True\<rparr>, \<lparr>key = 7, counter = 0\<rparr>)"
proof -
  have h1: "IsMatrix (shape \<lparr>shape = [2147483648, 0], flat = ([] :: fp list)\<rparr>)"
    by (simp add: IsMatrix_def)
  have h2: "2 ^ 31 \<le> shape \<lparr>shape = [2147483648, 0], flat = ([] :: fp list)\<rparr> ! 0 \<or>
            2 ^ 31 \<le> shape \<lparr>shape = [2147483648, 0], flat = ([] :: fp list)\<rparr> ! 1"
    by simp
  have h3: "IsScalar (shape \<lparr>shape = [], flat = [3 :: 32 word]\<rparr>) \<and>
            0 \<le> sint (hd (flat \<lparr>shape = [], flat = [3 :: 32 word]\<rparr>))"
    by (simp add: IsScalar_def)
  from too_large_for_int[OF h1 h2, of exact_machine True True "\<lparr>shape = [], flat = [3]\<rparr>"
      "\<lparr>key = 7, counter = 0\<rparr>"] h3
  show ?thesis by (auto simp: IsMatrix_def)
qed

text \<open>
  C6. A row of logits none of which is finite: the running total stays 0, every CDF
  entry is 0, every draw times the total is 0, the search for the first entry above 0
  ends at the end position, and all \<open>num_samples\<close> cells of the row receive the
  value \<open>num_classes\<close>. (The model is a total function: there is no crash.)
\<close>

theorem nonfinite_row_gets_num_classes:
  assumes "draw_times_zero env" "sharder_covers env"
    and "op_output env logits_t num_samples_t generator = Some rows"
    and "length (flat logits_t) = shape logits_t ! 0 * (shape logits_t ! 1)"
    and "b < shape logits_t ! 0"
    and "\<not> has_finite (matrix logits_t ! b)"
  shows "build_cdf env (matrix logits_t ! b) =
           (replicate (shape logits_t ! 1) (Fin 0), Fin 0) \<and>
         (\<forall>sp i. fmul env (draw env sp i) (Fin 0) = Fin 0) \<and>
         upper_bound (replicate (shape logits_t ! 1) (Fin 0)) (Fin 0) = shape logits_t ! 1 \<and>
         rows ! b = replicate (nat (sint (hd (flat num_samples_t)))) (shape logits_t ! 1)"
proof -
  have len: "length (matrix logits_t ! b) = shape logits_t ! 1"
    using assms(5,4) by (rule length_matrix_row)
  from op_output_row[OF assms(2,3,5)] obtain s where
    "rows ! b = fst (sample_row env (matrix logits_t ! b) (nat (sint (hd (flat num_samples_t))))
                  (row_stream generator (nat (sint (hd (flat num_samples_t)))) s b))" ..
  then have "rows ! b = replicate (nat (sint (hd (flat num_samples_t)))) (shape logits_t ! 1)"
    by (simp add: sample_row_nonfinite[OF assms(1,6)] len)
  moreover have "build_cdf env (matrix logits_t ! b) = (replicate (shape logits_t ! 1) (Fin 0), Fin 0)"
    using build_cdf_nonfinite[OF assms(6)] by (simp add: len)
  moreover have "\<forall>sp i. fmul env (draw env sp i) (Fin 0) = Fin 0"
    using assms(1) by (simp add: draw_times_zero_def draw_def)
  ultimately show ?thesis by (simp add: upper_bound_zeros)
qed

theorem nonfinite_row_gets_num_classes_witness:
  "draw_times_zero exact_machine \<and> sharder_covers exact_machine \<and>
   op_output exact_machine \<lparr>shape = [1, 3], flat = [PInf, NaN, NInf]\<rparr>
     \<lparr>shape = [], flat = [2]\<rparr> \<lparr>key = 5, counter = 1\<rparr> = Some [[3, 3]] \<and>
   \<not> has_finite (matrix \<lparr>shape = [1, 3], flat = [PInf, NaN, NInf]\<rparr> ! 0) \<and>
   build_cdf exact_machine (matrix \<lparr>shape = [1, 3], flat = [PInf, NaN, NInf]\<rparr> ! 0) =
     ([Fin 0, Fin 0, Fin 0], Fin 0) \<and>
   [[3, 3]] ! 0 = replicate 2 (3 :: nat)"
proof -
  let ?L = "\<lparr>shape = [1, 3], flat = [PInf, NaN, NInf]\<rparr>"
  let ?N = "\<lparr>shape = [], flat = [2 :: 32 word]\<rparr>"
  let ?G = "\<lparr>key = 5, counter = 1\<rparr>"
  have mat: "matrix ?L = [[PInf, NaN, NInf]]"
    by (simp add: matrix_def dim_size_def)
  have v: "valid_inputs ?L ?N"
    by (simp add: valid_inputs_def IsMatrix_def IsScalar_def)
  have m: "has_memory (new_context True True)" by (simp add: new_context_def)
  have h3: "op_output exact_machine ?L ?N ?G = Some [[3, 3]]"
    unfolding op_output_def DoCompute_valid[OF v m] mat
    by (simp add: new_context_def MultinomialFunctor_def run_shards_ok one_shard_def
        rows_of_shards_def DoWork_rows_def skip_blocks_def Skip_def SimplePhilox_def
        eval_defs upper_bound_loop.simps)
  have h4: "length (flat ?L) = shape ?L ! 0 * (shape ?L ! 1)" by simp
  have h5: "0 < shape ?L ! 0" by simp
  have h6: "\<not> has_finite (matrix ?L ! 0)" unfolding mat by (simp add: has_finite_def)
  note t = nonfinite_row_gets_num_classes[OF exact_machine_draw_times_zero
      exact_machine_sharder_covers h3 h4 h5 h6]
  from t have c: "build_cdf exact_machine (matrix ?L ! 0) = (replicate (shape ?L ! 1) (Fin 0), Fin 0)"
    by blast
  from t have r: "[[3, 3]] ! 0 = replicate (nat (sint (hd (flat ?N)))) (shape ?L ! 1)"
    by blast
  have c': "build_cdf exact_machine (matrix ?L ! 0) = ([Fin 0, Fin 0, Fin 0], Fin 0)"
    using c by (simp add: numeral_3_eq_3)
  show ?thesis
    using exact_machine_draw_times_zero exact_machine_sharder_covers h3 h6 c' r
    by simp
qed

text \<open>
  C1. The claim: every index written by a successful call is in \<open>[0, C)\<close>, whatever
  the logits, non-finite ones included. It fails on a row without a finite logit: the
  call below, on a \<open>1 \<times> 2\<close> matrix, succeeds and writes the index 2.
\<close>

theorem output_range_counterexample:
  "op_output exact_machine \<lparr>shape = [1, 2], flat = [NaN, NInf]\<rparr>
     \<lparr>shape = [], flat = [1]\<rparr> \<lparr>key = 0, counter = 0\<rparr> = Some [[2]]"
proof -
  let ?L = "\<lparr>shape = [1, 2], flat = [NaN, NInf]\<rparr>"
  have v: "valid_inputs ?L \<lparr>shape = [], flat = [1 :: 32 word]\<rparr>"
    by (simp add: valid_inputs_def IsMatrix_def IsScalar_def)
  have m: "has_memory (new_context True True)" by (simp add: new_context_def)
  have mat: "matrix ?L = [[NaN, NInf]]"
    by (simp add: matrix_def dim_size_def)
  show ?thesis
    unfolding op_output_def DoCompute_valid[OF v m] mat
    by (simp add: new_context_def MultinomialFunctor_def run_shards_ok one_shard_def
        rows_of_shards_def DoWork_rows_def skip_blocks_def Skip_def SimplePhilox_def
        eval_defs upper_bound_loop.simps)
qed

text \<open>
  C1 as amended: in a successful call, every index written for a row that has at
  least one finite logit is in \<open>[0, C)\<close>, for any rounding of the double arithmetic
  that meets \<open>ieee_like\<close>, any generator, and any sharder that reaches every row.
\<close>

theorem output_in_range:
  assumes "ieee_like env" "sharder_covers env"
    and "op_output env logits_t num_samples_t generator = Some rows"
    and "b < shape logits_t ! 0"
    and "row_of_T env (matrix logits_t ! b)" "has_finite (matrix logits_t ! b)"
  shows "\<forall>i \<in> set (rows ! b). i < shape logits_t ! 1"
proof -
  from op_output_Some[OF assms(3)] have "IsMatrix (shape logits_t)"
    by (simp add: valid_inputs_def)
  from matrix_row[OF this assms(4)] have len: "length (matrix logits_t ! b) \<le> shape logits_t ! 1"
    by simp
  from op_output_row[OF assms(2,3,4)] obtain s where
    r: "rows ! b = fst (sample_row env (matrix logits_t ! b) (nat (sint (hd (flat num_samples_t))))
                  (row_stream generator (nat (sint (hd (flat num_samples_t)))) s b))" ..
  show ?thesis
    unfolding r using sample_row_range[OF assms(1,5,6)] len by fastforce
qed

theorem output_in_range_witness:
  "ieee_like exact_machine \<and> sharder_covers exact_machine \<and>
   op_output exact_machine \<lparr>shape = [1, 2], flat = [Fin 0, NInf]\<rparr>
     \<lparr>shape = [], flat = [1]\<rparr> \<lparr>key = 0, counter = 1\<rparr> = Some [[0]] \<and>
   row_of_T exact_machine (matrix \<lparr>shape = [1, 2], flat = [Fin 0, NInf]\<rparr> ! 0) \<and>
   has_finite (matrix \<lparr>shape = [1, 2], flat = [Fin 0, NInf]\<rparr> ! 0) \<and>
   list_all (\<lambda>i. i < 2) ([[0 :: nat]] ! 0)"
proof -
  let ?L = "\<lparr>shape = [1, 2], flat = [Fin 0, NInf]\<rparr>"
  let ?N = "\<lparr>shape = [], flat = [1 :: 32 word]\<rparr>"
  let ?G = "\<lparr>key = 0, counter = 1\<rparr>"
  have mat: "matrix ?L = [[Fin 0, NInf]]"
    by (simp add: matrix_def dim_size_def)
  have v: "valid_inputs ?L ?N"
    by (simp add: valid_inputs_def IsMatrix_def IsScalar_def)
  have m: "has_memory (new_context True True)" by (simp add: new_context_def)
  have h3: "op_output exact_machine ?L ?N ?G = Some [[0]]"
    unfolding op_output_def DoCompute_valid[OF v m] mat
    by (simp add: new_context_def MultinomialFunctor_def run_shards_ok one_shard_def
        rows_of_shards_def DoWork_rows_def skip_blocks_def Skip_def SimplePhilox_def
        eval_defs upper_bound_loop.simps)
  have h4: "0 < shape ?L ! 0" by simp
  have h5: "row_of_T exact_machine (matrix ?L ! 0)"
    unfolding mat by (simp add: row_of_T_def exact_machine_def)
  have h6: "has_finite (matrix ?L ! 0)" unfolding mat by (simp add: has_finite_def)
  note t = output_in_range[OF exact_machine_ieee_like exact_machine_sharder_covers h3 h4 h5 h6]
  then have "list_all (\<lambda>i. i < 2) ([[0 :: nat]] ! 0)"
    by (simp add: list_all_iff)
  then show ?thesis
    using exact_machine_ieee_like exact_machine_sharder_covers h3 h5 h6 by simp
qed

text \<open>
  C4. For a row with at least one finite logit, with \<open>m\<close> the maximum of its finite
  logits: entry \<open>j\<close> of the CDF is the kernel's sum of \<open>exp (logit i - m)\<close> over the
  finite logits \<open>i \<le> j\<close>; the CDF does not decrease; the running total is its last
  entry; and each of the \<open>K\<close> samples is the least index whose entry exceeds
  \<open>u\<close>, the row's next uniform double times the total, with \<open>0 \<le> u < total\<close>: index 0
  when \<open>u\<close> is below the first entry.
\<close>

theorem cdf_and_inverse_sampling:
  assumes "ieee_like env" "row_of_T env row" "has_finite row"
  shows "fst (build_cdf env row) =
           map (\<lambda>j. fsum env (map (\<lambda>x. fexp env (fsub env x (Fin (Max (set (finite_values row))))))
                                (filter isfinite (take (Suc j) row)))) [0..<length row] \<and>
         (\<forall>i j. i \<le> j \<and> j < length row \<longrightarrow>
            \<not> fp_less (fst (build_cdf env row) ! j) (fst (build_cdf env row) ! i)) \<and>
         snd (build_cdf env row) = fst (build_cdf env row) ! (length row - 1) \<and>
         length (fst (sample_row env row K sp)) = K \<and>
         (\<forall>n<K. \<exists>u. fmul env (draw env sp n) (snd (build_cdf env row)) = Fin u \<and> 0 \<le> u \<and>
            fp_less (Fin u) (snd (build_cdf env row)) \<and>
            fst (sample_row env row K sp) ! n < length row \<and>
            fp_less (Fin u) (fst (build_cdf env row) ! (fst (sample_row env row K sp) ! n)) \<and>
            (\<forall>i < fst (sample_row env row K sp) ! n.
               \<not> fp_less (Fin u) (fst (build_cdf env row) ! i)) \<and>
            (fp_less (Fin u) (fst (build_cdf env row) ! 0) \<longrightarrow>
               fst (sample_row env row K sp) ! n = 0))"
proof -
  from row_cdf_facts[OF assms] obtain rs t where
    f: "fst (build_cdf env row) = map Fin rs" "length rs = length row" "sorted rs"
       "snd (build_cdf env row) = Fin t" "1 \<le> t" "last rs = t" "rs \<noteq> []" by blast
  have 1: "fst (build_cdf env row) =
           map (\<lambda>j. fsum env (map (\<lambda>x. fexp env (fsub env x (Fin (Max (set (finite_values row))))))
                                (filter isfinite (take (Suc j) row)))) [0..<length row]"
    by (simp add: build_cdf_eq row_max_eq[OF assms(2,3)])
  have 2: "\<forall>i j. i \<le> j \<and> j < length row \<longrightarrow>
            \<not> fp_less (fst (build_cdf env row) ! j) (fst (build_cdf env row) ! i)"
  proof (intro allI impI)
    fix i j assume ij: "i \<le> j \<and> j < length row"
    then have "rs ! i \<le> rs ! j" using f(2,3) by (simp add: sorted_iff_nth_mono)
    with ij f(2) show "\<not> fp_less (fst (build_cdf env row) ! j) (fst (build_cdf env row) ! i)"
      by (simp add: f(1))
  qed
  have 3: "snd (build_cdf env row) = fst (build_cdf env row) ! (length row - 1)"
  proof -
    have "length row - 1 < length rs" using f(2,7) by (cases rs) auto
    then have "map Fin rs ! (length row - 1) = Fin (rs ! (length row - 1))" by simp
    also have "rs ! (length row - 1) = last rs" using f(2,7) by (simp add: last_conv_nth)
    finally show ?thesis by (simp add: f(1,4,6))
  qed
  have 4: "length (fst (sample_row env row K sp)) = K" by (rule length_sample_row)
  have 5: "\<exists>u. fmul env (draw env sp n) (snd (build_cdf env row)) = Fin u \<and> 0 \<le> u \<and>
            fp_less (Fin u) (snd (build_cdf env row)) \<and>
            fst (sample_row env row K sp) ! n < length row \<and>
            fp_less (Fin u) (fst (build_cdf env row) ! (fst (sample_row env row K sp) ! n)) \<and>
            (\<forall>i < fst (sample_row env row K sp) ! n.
               \<not> fp_less (Fin u) (fst (build_cdf env row) ! i)) \<and>
            (fp_less (Fin u) (fst (build_cdf env row) ! 0) \<longrightarrow>
               fst (sample_row env row K sp) ! n = 0)" if n: "n < K" for n
  proof -
    from draw_in_total[OF assms(1) f(5)] obtain v where
      v: "fmul env (draw env sp n) (Fin t) = Fin v" "0 \<le> v" "v < t" by blast
    have s: "fst (sample_row env row K sp) ! n = upper_bound (map Fin rs) (Fin v)"
      using n by (simp add: sample_row_eq f(1,4) v(1))
    from v(3) f(6) have "v < last rs" by simp
    from upper_bound_sorted[OF f(3,7) this]
    have ub: "upper_bound (map Fin rs) (Fin v) < length rs"
      "fp_less (Fin v) (map Fin rs ! upper_bound (map Fin rs) (Fin v))"
      "\<forall>i < upper_bound (map Fin rs) (Fin v). \<not> fp_less (Fin v) (map Fin rs ! i)"
      by blast+
    have zero: "upper_bound (map Fin rs) (Fin v) = 0" if "fp_less (Fin v) (map Fin rs ! 0)"
      using ub(3) that by (cases "upper_bound (map Fin rs) (Fin v)") auto
    show ?thesis
      unfolding s f(1) f(4) using v ub zero f(2) by (intro exI[of _ v]) simp
  qed
  from 1 2 3 4 5 show ?thesis by blast
qed

theorem cdf_and_inverse_sampling_witness:
  "ieee_like exact_machine \<and> row_of_T exact_machine [Fin 0, NInf, Fin 0] \<and>
   has_finite [Fin 0, NInf, Fin 0] \<and>
   build_cdf exact_machine [Fin 0, NInf, Fin 0] = ([Fin 1, Fin 1, Fin 2], Fin 2) \<and>
   fst (sample_row exact_machine [Fin 0, NInf, Fin 0] 2 \<lparr>sp_key = 0, sp_next = 2\<rparr>) = [0, 2] \<and>
   length (fst (sample_row exact_machine [Fin 0, NInf, Fin 0] 2 \<lparr>sp_key = 0, sp_next = 2\<rparr>)) = 2"
proof -
  let ?row = "[Fin 0, NInf, Fin 0]"
  have h2: "row_of_T exact_machine ?row" by (simp add: row_of_T_def exact_machine_def)
  have h3: "has_finite ?row" by (simp add: has_finite_def)
  note t = cdf_and_inverse_sampling[OF exact_machine_ieee_like h2 h3, of 2
      "\<lparr>sp_key = 0, sp_next = 2\<rparr>"]
  then have len: "length (fst (sample_row exact_machine ?row 2 \<lparr>sp_key = 0, sp_next = 2\<rparr>)) = 2"
    by blast
  have c: "build_cdf exact_machine ?row = ([Fin 1, Fin 1, Fin 2], Fin 2)"
    by (simp add: eval_defs)
  have s: "fst (sample_row exact_machine ?row 2 \<lparr>sp_key = 0, sp_next = 2\<rparr>) = [0, 2]"
    unfolding sample_row_eq c
    by (simp add: eval_defs upper_bound_loop.simps)
  show ?thesis using exact_machine_ieee_like h2 h3 c s len by simp
qed

text \<open>
  C5. The claim: with one class, every sample is index 0 for any logits. It fails when
  the only logit of a row is not finite: the row below receives the index 1.
\<close>

theorem single_class_counterexample:
  "op_output exact_machine \<lparr>shape = [1, 1], flat = [NInf]\<rparr>
     \<lparr>shape = [], flat = [2]\<rparr> \<lparr>key = 0, counter = 0\<rparr> = Some [[1, 1]]"
proof -
  let ?L = "\<lparr>shape = [1, 1], flat = [NInf]\<rparr>"
  have v: "valid_inputs ?L \<lparr>shape = [], flat = [2 :: 32 word]\<rparr>"
    by (simp add: valid_inputs_def IsMatrix_def IsScalar_def)
  have m: "has_memory (new_context True True)" by (simp add: new_context_def)
  have mat: "matrix ?L = [[NInf]]"
    by (simp add: matrix_def dim_size_def)
  show ?thesis
    unfolding op_output_def DoCompute_valid[OF v m] mat
    by (simp add: new_context_def MultinomialFunctor_def run_shards_ok one_shard_def
        rows_of_shards_def DoWork_rows_def skip_blocks_def Skip_def SimplePhilox_def
        eval_defs upper_bound_loop.simps)
qed

text \<open>
  C5 as amended: with one class, every sample of a row whose logit is finite is
  index 0, for any sample count.
\<close>

theorem single_class_finite:
  assumes "ieee_like env" "sharder_covers env"
    and "op_output env logits_t num_samples_t generator = Some rows"
    and "shape logits_t ! 1 = 1"
    and "b < shape logits_t ! 0"
    and "row_of_T env (matrix logits_t ! b)" "has_finite (matrix logits_t ! b)"
  shows "rows ! b = replicate (nat (sint (hd (flat num_samples_t)))) 0"
proof -
  let ?K = "nat (sint (hd (flat num_samples_t)))"
  from op_output_Some[OF assms(3)] have "IsMatrix (shape logits_t)"
    by (simp add: valid_inputs_def)
  from matrix_row[OF this assms(5)] have "length (matrix logits_t ! b) \<le> shape logits_t ! 1"
    by simp
  with assms(4) have len: "length (matrix logits_t ! b) \<le> 1" by simp
  from op_output_row[OF assms(2,3,5)] obtain s where
    r: "rows ! b = fst (sample_row env (matrix logits_t ! b) ?K (row_stream generator ?K s b))" ..
  have "\<forall>i \<in> set (rows ! b). i = 0"
    unfolding r using sample_row_range[OF assms(1,6,7)] len by fastforce
  then have "replicate (length (rows ! b)) 0 = rows ! b"
    by (intro replicate_length_same) simp
  moreover have "length (rows ! b) = ?K" unfolding r by (rule length_sample_row)
  ultimately show ?thesis by simp
qed

theorem single_class_finite_witness:
  "ieee_like exact_machine \<and> sharder_covers exact_machine \<and>
   op_output exact_machine \<lparr>shape = [2, 1], flat = [Fin 3, Fin (- 2)]\<rparr>
     \<lparr>shape = [], flat = [2]\<rparr> \<lparr>key = 0, counter = 1\<rparr> = Some [[0, 0], [0, 0]] \<and>
   row_of_T exact_machine (matrix \<lparr>shape = [2, 1], flat = [Fin 3, Fin (- 2)]\<rparr> ! 1) \<and>
   has_finite (matrix \<lparr>shape = [2, 1], flat = [Fin 3, Fin (- 2)]\<rparr> ! 1) \<and>
   [[0, 0], [0, 0]] ! 1 = replicate 2 (0 :: nat)"
proof -
  let ?L = "\<lparr>shape = [2, 1], flat = [Fin 3, Fin (- 2)]\<rparr>"
  let ?N = "\<lparr>shape = [], flat = [2 :: 32 word]\<rparr>"
  let ?G = "\<lparr>key = 0, counter = 1\<rparr>"
  have mat: "matrix ?L = [[Fin 3], [Fin (- 2)]]"
    by (simp add: matrix_def dim_size_def upt_conv_Cons)
  have v: "valid_inputs ?L ?N"
    by (simp add: valid_inputs_def IsMatrix_def IsScalar_def)
  have m: "has_memory (new_context True True)" by (simp add: new_context_def)
  have h3: "op_output exact_machine ?L ?N ?G = Some [[0, 0], [0, 0]]"
    unfolding op_output_def DoCompute_valid[OF v m] mat
    by (simp add: new_context_def MultinomialFunctor_def run_shards_ok one_shard_def
        rows_of_shards_def DoWork_rows_def skip_blocks_def Skip_def SimplePhilox_def
        eval_defs upper_bound_loop.simps)
       (simp add: numeral_2_eq_2)
  have h4: "shape ?L ! 1 = 1" by simp
  have h5: "1 < shape ?L ! 0" by simp
  have h6: "row_of_T exact_machine (matrix ?L ! 1)"
    unfolding mat by (simp add: row_of_T_def exact_machine_def)
  have h7: "has_finite (matrix ?L ! 1)" unfolding mat by (simp add: has_finite_def)
  note t = single_class_finite[OF exact_machine_ieee_like exact_machine_sharder_covers
      h3 h4 h5 h6 h7]
  then have "[[0, 0], [0, 0]] ! 1 = replicate 2 (0 :: nat)" by simp
  then show ?thesis
    using exact_machine_ieee_like exact_machine_sharder_covers h3 h6 h7 by simp
qed

text \<open>
  C2. The claim: for a fixed generator, fixed logits and a fixed sample count, one
  shard and any partition into contiguous shards give the same output. It fails: a
  shard's rows draw from the stream at the position its \<open>Skip\<close> reaches, which is not
  the position the rows before it would have reached. With one sample per row, row 1
  draws its double from outputs 2 and 3 when the batch is one shard and from outputs
  4 and 5 when it is the second of two shards.
\<close>

theorem shard_invariance_counterexample:
  "run_shards exact_machine True \<lparr>key = 0, counter = 0\<rparr> 1
     [[Fin 0, Fin 0], [Fin 0, Fin 0]] [(0, 2)] (None, [[0], [0]]) = (None, [[0], [0]]) \<and>
   run_shards exact_machine True \<lparr>key = 0, counter = 0\<rparr> 1
     [[Fin 0, Fin 0], [Fin 0, Fin 0]] [(0, 1), (1, 2)] (None, [[0], [0]]) = (None, [[0], [1]])"
  by (simp add: run_shards_ok rows_of_shards_def DoWork_rows_def skip_blocks_def Skip_def
        SimplePhilox_def eval_defs upper_bound_loop.simps)

text \<open>
  C2 as amended: the run on any list of shards and the run on the single shard
  \<open>[0, B)\<close> write the same samples to every row whose shard starts at a row \<open>s\<close> with
  \<open>4 * skip_blocks s K = 2 * K * s\<close>, that is, where the blocks skipped are exactly the
  outputs that \<open>s\<close> rows consume. The first shard (\<open>s = 0\<close>) always is such a shard.
\<close>

theorem shard_invariance_aligned:
  assumes "b < length output"
    and "shard_start None shards b = Some s"
    and "4 * skip_blocks s K = 2 * K * s"
  shows "snd (run_shards env True gen K logits shards (st, output)) ! b =
         snd (run_shards env True gen K logits [(0, length output)] (st, output)) ! b"
proof -
  from shard_start_le[OF assms(2)] have sb: "s \<le> b" by simp
  have "2 * K * s + 2 * K * (b - s) = 2 * K * b"
    using sb by (metis add_mult_distrib2 le_add_diff_inverse)
  then have "row_stream gen K s b = row_stream gen K 0 b"
    using assms(3)
    by (simp add: row_stream_def advance_def SimplePhilox_def Skip_def skip_blocks_def)
  moreover have "shard_start None [(0, length output)] b = Some 0"
    using assms(1) by simp
  ultimately show ?thesis
    by (simp add: run_shards_ok rows_of_shards_nth[OF assms(1)] assms(2))
qed

theorem shard_invariance_aligned_witness:
  "shard_start None [(0, 2), (2, 3)] 2 = Some 2 \<and>
   4 * skip_blocks 2 3 = 2 * 3 * 2 \<and>
   snd (run_shards exact_machine True \<lparr>key = 0, counter = 0\<rparr> 3
          [[Fin 0, Fin 0], [Fin 0, Fin 0], [Fin 0, Fin 0]] [(0, 2), (2, 3)]
          (None, [[0, 0, 0], [0, 0, 0], [0, 0, 0]])) ! 2 =
   snd (run_shards exact_machine True \<lparr>key = 0, counter = 0\<rparr> 3
          [[Fin 0, Fin 0], [Fin 0, Fin 0], [Fin 0, Fin 0]] [(0, 3)]
          (None, [[0, 0, 0], [0, 0, 0], [0, 0, 0]])) ! 2 \<and>
   snd (run_shards exact_machine True \<lparr>key = 0, counter = 0\<rparr> 3
          [[Fin 0, Fin 0], [Fin 0, Fin 0], [Fin 0, Fin 0]] [(0, 3)]
          (None, [[0, 0, 0], [0, 0, 0], [0, 0, 0]])) ! 2 = [1, 1, 0]"
proof -
  let ?out = "[[0, 0, 0], [0, 0, 0], [0, 0, 0 :: nat]]"
  have h1: "2 < length ?out" by simp
  have h2: "shard_start None [(0, 2), (2, 3)] 2 = Some 2" by simp
  have h3: "4 * skip_blocks 2 3 = 2 * 3 * 2" by (simp add: skip_blocks_def)
  have l: "length ?out = 3" by simp
  note t = shard_invariance_aligned[OF h1 h2 h3, of exact_machine "\<lparr>key = 0, counter = 0\<rparr>"
      "[[Fin 0, Fin 0], [Fin 0, Fin 0], [Fin 0, Fin 0]]" None, unfolded l]
  have e: "snd (run_shards exact_machine True \<lparr>key = 0, counter = 0\<rparr> 3
     [[Fin 0, Fin 0], [Fin 0, Fin 0], [Fin 0, Fin 0]] [(0, 3)] (None, ?out)) ! 2 = [1, 1, 0]"
    by (simp add: run_shards_ok rows_of_shards_def DoWork_rows_def skip_blocks_def Skip_def
        SimplePhilox_def eval_defs upper_bound_loop.simps)
  show ?thesis using t h2 h3 e by (simp only: simp_thms)
qed

text \<open>
  C7. The claim: an invalid-argument error is reported exactly when the logits are
  not rank 2, \<open>num_samples\<close> is not a scalar or is negative, the class count is 0, or
  (stateless kernel) the seed is not of shape \<open>[2]\<close>. The "exactly" fails: a rank-2
  logits tensor of shape \<open>[0, 2 ^ 31]\<close> with a valid sample count is none of these
  cases, and the op reports an invalid-argument error for it.
\<close>

theorem validation_list_counterexample:
  "\<not> listed_invalid \<lparr>shape = [0, 2147483648], flat = []\<rparr> \<lparr>shape = [], flat = [1]\<rparr> \<and>
   DoCompute exact_machine (new_context True True) \<lparr>shape = [0, 2147483648], flat = []\<rparr>
     \<lparr>shape = [], flat = [1]\<rparr> \<lparr>key = 0, counter = 0\<rparr> =
     (\<lparr>status = Some (InvalidArgument TooLargeForInt), output0 = None, effects = [],
       has_memory = True, has_temp_memory = True\<rparr>, \<lparr>key = 0, counter = 0\<rparr>)"
proof -
  have "static_cast_int 2147483648 \<noteq> 2147483648"
    using static_cast_int_nat[of 2147483648] by simp
  then show ?thesis
    by (simp add: listed_invalid_def IsMatrix_def IsScalar_def DoCompute_def Let_def
          dim_size_def fail_new_context static_cast_int_0)
qed

text \<open>
  C7 as amended: the status is an invalid-argument error exactly when one of the
  listed cases holds or a dimension of the rank-2 logits does not fit a 32-bit \<open>int\<close>;
  and whenever it is, no output is allocated, the runtime sees no effect, and the
  generator (for the stateless kernel, the kernel object) is as before the call.
\<close>

theorem invalid_argument_iff:
  "(is_invalid_argument (status (fst (DoCompute env (new_context mem temp) logits_t num_samples_t g)))
      \<longleftrightarrow> listed_invalid logits_t num_samples_t \<or>
          (IsMatrix (shape logits_t) \<and>
           (2 ^ 31 \<le> shape logits_t ! 0 \<or> 2 ^ 31 \<le> shape logits_t ! 1))) \<and>
   (is_invalid_argument (status (fst (DoCompute env (new_context mem temp) logits_t num_samples_t g)))
      \<longrightarrow> DoCompute env (new_context mem temp) logits_t num_samples_t g =
            (\<lparr>status = status (fst (DoCompute env (new_context mem temp) logits_t num_samples_t g)),
              output0 = None, effects = [], has_memory = mem, has_temp_memory = temp\<rparr>, g)) \<and>
   (is_invalid_argument
      (status (fst (StatelessCompute env op (new_context mem temp) logits_t num_samples_t seed_t)))
      \<longleftrightarrow> \<not> seed_is_shape_2 seed_t \<or> listed_invalid logits_t num_samples_t \<or>
          (IsMatrix (shape logits_t) \<and>
           (2 ^ 31 \<le> shape logits_t ! 0 \<or> 2 ^ 31 \<le> shape logits_t ! 1))) \<and>
   (is_invalid_argument
      (status (fst (StatelessCompute env op (new_context mem temp) logits_t num_samples_t seed_t)))
      \<longrightarrow> StatelessCompute env op (new_context mem temp) logits_t num_samples_t seed_t =
            (\<lparr>status = status (fst (StatelessCompute env op (new_context mem temp) logits_t
                                      num_samples_t seed_t)),
              output0 = None, effects = [], has_memory = mem, has_temp_memory = temp\<rparr>, op))"
proof -
  have 1: "is_invalid_argument (status (fst (DoCompute env (new_context mem temp) logits_t num_samples_t g)))
      \<longleftrightarrow> listed_invalid logits_t num_samples_t \<or>
          (IsMatrix (shape logits_t) \<and>
           (2 ^ 31 \<le> shape logits_t ! 0 \<or> 2 ^ 31 \<le> shape logits_t ! 1))" for g
    unfolding DoCompute_status by (rule not_valid_iff)
  have 3: "is_invalid_argument
      (status (fst (StatelessCompute env op (new_context mem temp) logits_t num_samples_t seed_t)))
      \<longleftrightarrow> \<not> seed_is_shape_2 seed_t \<or> listed_invalid logits_t num_samples_t \<or>
          (IsMatrix (shape logits_t) \<and>
           (2 ^ 31 \<le> shape logits_t ! 0 \<or> 2 ^ 31 \<le> shape logits_t ! 1))"
    unfolding StatelessCompute_eq using 1
    by (simp add: is_invalid_argument_def fail_def)
  have 4: "StatelessCompute env op (new_context mem temp) logits_t num_samples_t seed_t =
            (\<lparr>status = status (fst (StatelessCompute env op (new_context mem temp) logits_t
                                      num_samples_t seed_t)),
              output0 = None, effects = [], has_memory = mem, has_temp_memory = temp\<rparr>, op)"
    if "is_invalid_argument
      (status (fst (StatelessCompute env op (new_context mem temp) logits_t num_samples_t seed_t)))"
  proof (cases "seed_is_shape_2 seed_t")
    case True
    let ?g = "Init (snd (generate_key env (flat seed_t))) (fst (generate_key env (flat seed_t)))"
    from that True have
      "is_invalid_argument (status (fst (DoCompute env (new_context mem temp) logits_t num_samples_t ?g)))"
      by (simp add: StatelessCompute_eq)
    from DoCompute_invalid_result[OF this] have
      "fst (DoCompute env (new_context mem temp) logits_t num_samples_t ?g) =
         \<lparr>status = status (fst (DoCompute env (new_context mem temp) logits_t num_samples_t ?g)),
           output0 = None, effects = [], has_memory = mem, has_temp_memory = temp\<rparr>"
      by (metis fst_conv)
    then show ?thesis
      unfolding StatelessCompute_eq using True by simp
  next
    case False
    then show ?thesis by (simp add: StatelessCompute_eq fail_new_context)
  qed
  from 1 3 4 DoCompute_invalid_result show ?thesis by blast
qed

theorem invalid_argument_iff_witness:
  "listed_invalid \<lparr>shape = [2, 3], flat = replicate 6 (Fin 0)\<rparr> \<lparr>shape = [], flat = [- 1]\<rparr> \<and>
   DoCompute exact_machine (new_context True True) \<lparr>shape = [2, 3], flat = replicate 6 (Fin 0)\<rparr>
     \<lparr>shape = [], flat = [- 1]\<rparr> \<lparr>key = 0, counter = 9\<rparr> =
     (\<lparr>status = Some (InvalidArgument NumSamplesNegative), output0 = None, effects = [],
       has_memory = True, has_temp_memory = True\<rparr>, \<lparr>key = 0, counter = 9\<rparr>) \<and>
   \<not> seed_is_shape_2 \<lparr>shape = [3], flat = [1, 2, 3]\<rparr> \<and>
   StatelessCompute exact_machine \<lparr>member_generator = \<lparr>key = 4, counter = 4\<rparr>\<rparr>
     (new_context True True) \<lparr>shape = [2, 3], flat = replicate 6 (Fin 0)\<rparr>
     \<lparr>shape = [], flat = [5]\<rparr> \<lparr>shape = [3], flat = [1, 2, 3]\<rparr> =
     (\<lparr>status = Some (InvalidArgument SeedNotShape2), output0 = None, effects = [],
       has_memory = True, has_temp_memory = True\<rparr>, \<lparr>member_generator = \<lparr>key = 4, counter = 4\<rparr>\<rparr>)"
proof -
  let ?L = "\<lparr>shape = [2, 3], flat = replicate 6 (Fin 0)\<rparr>"
  let ?N = "\<lparr>shape = [], flat = [- 1 :: 32 word]\<rparr>"
  let ?G = "\<lparr>key = 0, counter = 9\<rparr>"
  let ?S = "\<lparr>shape = [3], flat = [1, 2, 3 :: int]\<rparr>"
  let ?op = "\<lparr>member_generator = \<lparr>key = 4, counter = 4\<rparr>\<rparr>"
  have l: "listed_invalid ?L ?N"
    by (simp add: listed_invalid_def IsMatrix_def IsScalar_def)
  have s: "\<not> seed_is_shape_2 ?S" by (simp add: seed_is_shape_2_def)
  note t = invalid_argument_iff[of exact_machine True True ?L ?N ?G ?op ?S]
  from t l have i: "is_invalid_argument (status (fst (DoCompute exact_machine (new_context True True) ?L ?N ?G)))"
    by blast
  with t have d: "DoCompute exact_machine (new_context True True) ?L ?N ?G =
            (\<lparr>status = status (fst (DoCompute exact_machine (new_context True True) ?L ?N ?G)),
              output0 = None, effects = [], has_memory = True, has_temp_memory = True\<rparr>, ?G)" by blast
  have st: "status (fst (DoCompute exact_machine (new_context True True) ?L ?N ?G)) =
            Some (InvalidArgument NumSamplesNegative)"
    by (simp add: DoCompute_def IsMatrix_def IsScalar_def Let_def fail_def)
  have sl: "StatelessCompute exact_machine ?op (new_context True True) ?L
     \<lparr>shape = [], flat = [5]\<rparr> ?S =
     (\<lparr>status = Some (InvalidArgument SeedNotShape2), output0 = None, effects = [],
       has_memory = True, has_temp_memory = True\<rparr>, ?op)"
    by (simp add: StatelessCompute_def dim_size_def fail_new_context)
  show ?thesis using l s d st sl by simp
qed

text \<open>
  C8. When the inputs pass validation and the batch size or the sample count is 0,
  \<open>DoCompute\<close> allocates the output of shape \<open>[B, K]\<close> and returns: the status is OK,
  the only effect is the allocation (no reservation of generator outputs, no call of
  the functor), the output has no cell, and the generator, also the one the stateful
  kernel keeps, is unchanged.
\<close>

theorem empty_output_short_circuit:
  assumes "valid_inputs logits_t num_samples_t"
    and "shape logits_t ! 0 = 0 \<or> sint (hd (flat num_samples_t)) = 0"
  shows "DoCompute env (new_context True temp) logits_t num_samples_t generator =
           (\<lparr>status = None,
             output0 = Some ([int (shape logits_t ! 0), sint (hd (flat num_samples_t))],
                             replicate (shape logits_t ! 0)
                               (replicate (nat (sint (hd (flat num_samples_t)))) 0)),
             effects = [AllocateOutput [int (shape logits_t ! 0), sint (hd (flat num_samples_t))]],
             has_memory = True, has_temp_memory = temp\<rparr>, generator) \<and>
         concat (replicate (shape logits_t ! 0)
                   (replicate (nat (sint (hd (flat num_samples_t)))) (0 :: nat))) = [] \<and>
         snd (StatefulCompute env op (new_context True temp) logits_t num_samples_t) = op"
proof -
  have m: "has_memory (new_context True temp)" by (simp add: new_context_def)
  from assms(1) have k: "int (nat (sint (hd (flat num_samples_t)))) = sint (hd (flat num_samples_t))"
    by (simp add: valid_inputs_def)
  from assms(1) have nn: "0 \<le> sint (hd (flat num_samples_t))"
    by (simp add: valid_inputs_def)
  from assms(2) have z: "\<not> 0 < shape logits_t ! 0 * nat (sint (hd (flat num_samples_t)))"
    by auto
  have d: "DoCompute env (new_context True temp) logits_t num_samples_t g =
           (\<lparr>status = None,
             output0 = Some ([int (shape logits_t ! 0), sint (hd (flat num_samples_t))],
                             replicate (shape logits_t ! 0)
                               (replicate (nat (sint (hd (flat num_samples_t)))) 0)),
             effects = [AllocateOutput [int (shape logits_t ! 0), sint (hd (flat num_samples_t))]],
             has_memory = True, has_temp_memory = temp\<rparr>, g)" for g
    unfolding DoCompute_valid[OF assms(1) m] Let_def
    using z nn by (simp add: k new_context_def)
  have c: "concat (replicate (shape logits_t ! 0)
                   (replicate (nat (sint (hd (flat num_samples_t)))) (0 :: nat))) = []"
    using assms(2) by auto
  have s: "snd (StatefulCompute env op (new_context True temp) logits_t num_samples_t) = op"
    by (simp add: StatefulCompute_def d[of "member_generator op"])
  from d[of generator] c s show ?thesis by simp
qed

theorem empty_output_short_circuit_witness:
  "valid_inputs \<lparr>shape = [2, 1], flat = [Fin 0, Fin 1]\<rparr> \<lparr>shape = [], flat = [0]\<rparr> \<and>
   DoCompute exact_machine (new_context True True) \<lparr>shape = [2, 1], flat = [Fin 0, Fin 1]\<rparr>
     \<lparr>shape = [], flat = [0]\<rparr> \<lparr>key = 1, counter = 2\<rparr> =
     (\<lparr>status = None, output0 = Some ([2, 0], [[], []]),
       effects = [AllocateOutput [2, 0]], has_memory = True, has_temp_memory = True\<rparr>, \<lparr>key = 1, counter = 2\<rparr>) \<and>
   valid_inputs \<lparr>shape = [0, 4], flat = []\<rparr> \<lparr>shape = [], flat = [3]\<rparr> \<and>
   DoCompute exact_machine (new_context True True) \<lparr>shape = [0, 4], flat = []\<rparr>
     \<lparr>shape = [], flat = [3]\<rparr> \<lparr>key = 1, counter = 2\<rparr> =
     (\<lparr>status = None, output0 = Some ([0, 3], []),
       effects = [AllocateOutput [0, 3]], has_memory = True, has_temp_memory = True\<rparr>, \<lparr>key = 1, counter = 2\<rparr>)"
proof -
  let ?L1 = "\<lparr>shape = [2, 1], flat = [Fin 0, Fin 1]\<rparr>"
  let ?N1 = "\<lparr>shape = [], flat = [0 :: 32 word]\<rparr>"
  let ?L2 = "\<lparr>shape = [0, 4], flat = ([] :: fp list)\<rparr>"
  let ?N2 = "\<lparr>shape = [], flat = [3 :: 32 word]\<rparr>"
  let ?G = "\<lparr>key = 1, counter = 2\<rparr>"
  have v1: "valid_inputs ?L1 ?N1"
    by (simp add: valid_inputs_def IsMatrix_def IsScalar_def)
  have v2: "valid_inputs ?L2 ?N2"
    by (simp add: valid_inputs_def IsMatrix_def IsScalar_def)
  have z1: "shape ?L1 ! 0 = 0 \<or> sint (hd (flat ?N1)) = 0" by simp
  have z2: "shape ?L2 ! 0 = 0 \<or> sint (hd (flat ?N2)) = 0" by simp
  note t1 = empty_output_short_circuit[OF v1 z1, of exact_machine True ?G
      "\<lparr>member_generator = ?G\<rparr>", THEN conjunct1]
  note t2 = empty_output_short_circuit[OF v2 z2, of exact_machine True ?G
      "\<lparr>member_generator = ?G\<rparr>", THEN conjunct1]
  have r1: "replicate (shape ?L1 ! 0) (replicate (nat (sint (hd (flat ?N1)))) (0 :: nat)) = [[], []]"
    by (simp add: numeral_2_eq_2)
  from t1 have d1: "DoCompute exact_machine (new_context True True) ?L1 ?N1 ?G =
     (\<lparr>status = None, output0 = Some ([2, 0], [[], []]),
       effects = [AllocateOutput [2, 0]], has_memory = True, has_temp_memory = True\<rparr>, ?G)"
    unfolding r1 by simp
  from t2 have d2: "DoCompute exact_machine (new_context True True) ?L2 ?N2 ?G =
     (\<lparr>status = None, output0 = Some ([0, 3], []),
       effects = [AllocateOutput [0, 3]], has_memory = True, has_temp_memory = True\<rparr>, ?G)"
    by simp
  show ?thesis using v1 v2 d1 d2 by (simp only: simp_thms)
qed

text \<open>
  C9. The claim: two calls of the stateless kernel with identical logits, identical
  sample count and identical seed produce identical output matrices, and a call
  mutates no state that outlives it. The first half fails as stated: the ranges on
  which the rows are sampled are the choice of the runtime's sharder (the number of
  worker threads of the call's context enters it), and the position at which a row
  draws depends on where its shard starts. For logits \<open>[[0, 0], [0, 0]]\<close>, one sample
  per row and seed \<open>[0, 0]\<close>, the call returns \<open>[[0], [0]]\<close> when the sharder runs the
  batch as one shard and \<open>[[0], [1]]\<close> when it makes every row a shard.
\<close>

theorem stateless_sharding_counterexample:
  "output0 (fst (StatelessCompute exact_machine
       \<lparr>member_generator = \<lparr>key = 0, counter = 0\<rparr>\<rparr> (new_context True True)
       \<lparr>shape = [2, 2], flat = [Fin 0, Fin 0, Fin 0, Fin 0]\<rparr> \<lparr>shape = [], flat = [1]\<rparr>
       \<lparr>shape = [2], flat = [0, 0]\<rparr>)) = Some ([2, 1], [[0], [0]]) \<and>
   output0 (fst (StatelessCompute (exact_machine\<lparr>shard_ranges := per_row_shards\<rparr>)
       \<lparr>member_generator = \<lparr>key = 0, counter = 0\<rparr>\<rparr> (new_context True True)
       \<lparr>shape = [2, 2], flat = [Fin 0, Fin 0, Fin 0, Fin 0]\<rparr> \<lparr>shape = [], flat = [1]\<rparr>
       \<lparr>shape = [2], flat = [0, 0]\<rparr>)) = Some ([2, 1], [[0], [1]])"
proof -
  let ?L = "\<lparr>shape = [2, 2], flat = [Fin 0, Fin 0, Fin 0, Fin 0]\<rparr>"
  let ?N = "\<lparr>shape = [], flat = [1 :: 32 word]\<rparr>"
  have v: "valid_inputs ?L ?N"
    by (simp add: valid_inputs_def IsMatrix_def IsScalar_def)
  have m: "has_memory (new_context True True)" by (simp add: new_context_def)
  have mat: "matrix ?L = [[Fin 0, Fin 0], [Fin 0, Fin 0]]"
    by (simp add: matrix_def dim_size_def upt_conv_Cons)
  have s1: "shard_ranges exact_machine 2 c = [(0, 2)]" for c
    by (simp add: exact_machine_def one_shard_def)
  have s2: "per_row_shards 2 c = [(0, 1), (1, 2)]" for c
    by (simp add: per_row_shards_def upt_conv_Cons)
  have r1: "run_shards exact_machine True \<lparr>key = 0, counter = 0\<rparr> 1
     [[Fin 0, Fin 0], [Fin 0, Fin 0]] [(0, 2)] (None, [[0], [0]]) = (None, [[0], [0]])"
    by (simp add: run_shards_ok rows_of_shards_def DoWork_rows_def skip_blocks_def Skip_def
        SimplePhilox_def eval_defs upper_bound_loop.simps)
  have r2: "run_shards (exact_machine\<lparr>shard_ranges := per_row_shards\<rparr>) True \<lparr>key = 0, counter = 0\<rparr> 1
     [[Fin 0, Fin 0], [Fin 0, Fin 0]] [(0, 1), (1, 2)] (None, [[0], [0]]) = (None, [[0], [1]])"
    by (simp add: run_shards_ok rows_of_shards_def DoWork_rows_def skip_blocks_def Skip_def
        SimplePhilox_def eval_defs upper_bound_loop.simps)
  have g: "generate_key exact_machine [0, 0] = (0, 0)"
    by (simp add: exact_machine_def)
  have f: "replicate 2 [0 :: nat] = [[0], [0]]" by (simp add: numeral_2_eq_2)
  show ?thesis
    unfolding StatelessCompute_eq DoCompute_valid[OF v m]
    using r1 r2
    by (simp add: seed_is_shape_2_def Let_def MultinomialFunctor_def mat f s1 s2 g
          Init_def new_context_def)
qed

text \<open>
  C9 as amended: a call of the stateless kernel on any kernel object and under any
  sharder returns what the call on the same context, logits, sample count and seed
  returns under the first sharder, whenever the two sharders make every row of the
  batch start to draw at the same position (\<open>row_offset\<close>) and the workers get their
  scratch memory; the result does not depend on the kernel object, and the kernel
  object is as before the call (the stateful kernel's is not:
  \<open>stateful_advances_generator\<close>).
\<close>

theorem stateless_same_offsets:
  assumes "has_temp_memory ctx"
    and "\<forall>b < shape logits_t ! 0.
           row_offset (nat (sint (hd (flat num_samples_t))))
             (shard_ranges env (shape logits_t ! 0)
                (work_cost env (nat (sint (hd (flat num_samples_t)))) (shape logits_t ! 1))) b =
           row_offset (nat (sint (hd (flat num_samples_t))))
             (sharder (shape logits_t ! 0)
                (work_cost env (nat (sint (hd (flat num_samples_t)))) (shape logits_t ! 1))) b"
  shows "StatelessCompute (env\<lparr>shard_ranges := sharder\<rparr>) op2 ctx logits_t num_samples_t seed_t =
           (fst (StatelessCompute env op1 ctx logits_t num_samples_t seed_t), op2) \<and>
         snd (StatelessCompute env op1 ctx logits_t num_samples_t seed_t) = op1"
proof -
  have "DoCompute (env\<lparr>shard_ranges := sharder\<rparr>) ctx logits_t num_samples_t g =
        DoCompute env ctx logits_t num_samples_t g" for g
    using assms by (rule DoCompute_sharder)
  then show ?thesis by (simp add: StatelessCompute_eq)
qed

theorem stateless_same_offsets_witness:
  "has_temp_memory (new_context True True) \<and>
   shard_ranges exact_machine 2 (work_cost exact_machine 2 2) = [(0, 2)] \<and>
   per_row_shards 2 (work_cost exact_machine 2 2) = [(0, 1), (1, 2)] \<and>
   row_offset 2 [(0, 2)] 0 = row_offset 2 [(0, 1), (1, 2)] 0 \<and>
   row_offset 2 [(0, 2)] 1 = row_offset 2 [(0, 1), (1, 2)] 1 \<and>
   StatelessCompute (exact_machine\<lparr>shard_ranges := per_row_shards\<rparr>)
       \<lparr>member_generator = \<lparr>key = 1, counter = 7\<rparr>\<rparr> (new_context True True)
       \<lparr>shape = [2, 2], flat = [Fin 0, Fin 0, Fin 0, Fin 0]\<rparr> \<lparr>shape = [], flat = [2]\<rparr>
       \<lparr>shape = [2], flat = [0, 0]\<rparr> =
     (fst (StatelessCompute exact_machine
        \<lparr>member_generator = \<lparr>key = 0, counter = 0\<rparr>\<rparr> (new_context True True)
        \<lparr>shape = [2, 2], flat = [Fin 0, Fin 0, Fin 0, Fin 0]\<rparr> \<lparr>shape = [], flat = [2]\<rparr>
        \<lparr>shape = [2], flat = [0, 0]\<rparr>),
      \<lparr>member_generator = \<lparr>key = 1, counter = 7\<rparr>\<rparr>) \<and>
   output0 (fst (StatelessCompute exact_machine
        \<lparr>member_generator = \<lparr>key = 0, counter = 0\<rparr>\<rparr> (new_context True True)
        \<lparr>shape = [2, 2], flat = [Fin 0, Fin 0, Fin 0, Fin 0]\<rparr> \<lparr>shape = [], flat = [2]\<rparr>
        \<lparr>shape = [2], flat = [0, 0]\<rparr>)) = Some ([2, 2], [[0, 0], [1, 1]])"
proof -
  let ?L = "\<lparr>shape = [2, 2], flat = [Fin 0, Fin 0, Fin 0, Fin 0]\<rparr>"
  let ?N = "\<lparr>shape = [], flat = [2 :: 32 word]\<rparr>"
  let ?S = "\<lparr>shape = [2], flat = [0, 0 :: int]\<rparr>"
  let ?c = "work_cost exact_machine 2 2"
  have h1: "has_temp_memory (new_context True True)" by (simp add: new_context_def)
  have s1: "shard_ranges exact_machine 2 ?c = [(0, 2)]"
    by (simp add: exact_machine_def one_shard_def)
  have s2: "per_row_shards 2 ?c = [(0, 1), (1, 2)]"
    by (simp add: per_row_shards_def upt_conv_Cons)
  have o0: "row_offset 2 [(0, 2)] 0 = row_offset 2 [(0, 1), (1, 2)] 0"
    by (simp add: row_offset_def skip_blocks_def)
  have o1: "row_offset 2 [(0, 2)] 1 = row_offset 2 [(0, 1), (1, 2)] 1"
    by (simp add: row_offset_def skip_blocks_def)
  have k: "nat (sint (hd (flat ?N))) = 2" by simp
  have sh: "shape ?L ! 0 = 2" "shape ?L ! 1 = 2" by simp_all
  have h2: "\<forall>b < shape ?L ! 0.
           row_offset (nat (sint (hd (flat ?N))))
             (shard_ranges exact_machine (shape ?L ! 0)
                (work_cost exact_machine (nat (sint (hd (flat ?N)))) (shape ?L ! 1))) b =
           row_offset (nat (sint (hd (flat ?N))))
             (per_row_shards (shape ?L ! 0)
                (work_cost exact_machine (nat (sint (hd (flat ?N)))) (shape ?L ! 1))) b"
    unfolding k sh s1 s2 using o0 o1 by (auto simp: less_2_cases_iff)
  note t = stateless_same_offsets[where env = exact_machine and sharder = per_row_shards
      and ctx = "new_context True True" and logits_t = ?L and num_samples_t = ?N
      and seed_t = ?S and ?op1.0 = "\<lparr>member_generator = \<lparr>key = 0, counter = 0\<rparr>\<rparr>"
      and ?op2.0 = "\<lparr>member_generator = \<lparr>key = 1, counter = 7\<rparr>\<rparr>", OF h1 h2]
  have v: "valid_inputs ?L ?N"
    by (simp add: valid_inputs_def IsMatrix_def IsScalar_def)
  have m: "has_memory (new_context True True)" by (simp add: new_context_def)
  have mat: "matrix ?L = [[Fin 0, Fin 0], [Fin 0, Fin 0]]"
    by (simp add: matrix_def dim_size_def upt_conv_Cons)
  have f: "replicate 2 [0, 0 :: nat] = [[0, 0], [0, 0]]" by (simp add: numeral_2_eq_2)
  have f2: "replicate 2 (0 :: nat) = [0, 0]" by (simp add: numeral_2_eq_2)
  have r: "run_shards exact_machine True \<lparr>key = 0, counter = 0\<rparr> 2
     [[Fin 0, Fin 0], [Fin 0, Fin 0]] [(0, 2)] (None, [[0, 0], [0, 0]]) =
       (None, [[0, 0], [1, 1]])"
    by (simp add: run_shards_ok rows_of_shards_def DoWork_rows_def skip_blocks_def Skip_def
        SimplePhilox_def eval_defs upper_bound_loop.simps)
  have g: "generate_key exact_machine [0, 0] = (0, 0)"
    by (simp add: exact_machine_def)
  have e: "output0 (fst (StatelessCompute exact_machine
        \<lparr>member_generator = \<lparr>key = 0, counter = 0\<rparr>\<rparr> (new_context True True) ?L ?N ?S)) =
      Some ([2, 2], [[0, 0], [1, 1]])"
    unfolding StatelessCompute_eq DoCompute_valid[OF v m]
    using r
    by (simp add: seed_is_shape_2_def Let_def MultinomialFunctor_def mat f f2 s1 g
          Init_def new_context_def)
  show ?thesis using h1 s1 s2 o0 o1 t e by (simp only: simp_thms)
qed

end
